theory Spec2Isabelle
  imports Complex_Main "HOL-Library.Word" "HOL-Library.Sublist" "HOL-Library.Multiset"
begin

section \<open>The hunt route: data model\<close>

text \<open>
  The development embeds the request handler \<^verbatim>\<open>POST\<close> of
  \<^verbatim>\<open>src/frontend/src/app/api/hunt/route.ts\<close>.

  A JavaScript string is a sequence of UTF-16 code units, and \<^verbatim>\<open>.length\<close>
  counts code units, so a string is a list of 16-bit words.
\<close>

type_synonym jsstring = "16 word list"

text \<open>
  The \<^verbatim>\<open>Product\<close> interface (imported from \<^verbatim>\<open>@/lib/gemini\<close> and
  repeated in \<^verbatim>\<open>page.tsx\<close>). An optional field is an \<open>option\<close>, \<open>None\<close>
  standing for \<^verbatim>\<open>undefined\<close>. \<^verbatim>\<open>relevanceScore\<close> is declared \<^verbatim>\<open>number\<close>;
  the score is an integer, and the handler only compares and subtracts scores, which is
  exact on integers.
\<close>

record price_info =
  amount :: real
  currency :: jsstring
  formatted :: jsstring

record product =
  name :: jsstring
  brand :: jsstring
  description :: jsstring
  price :: "price_info option"
  officialUrl :: "jsstring option"
  amazonUrl :: "jsstring option"
  rakutenUrl :: "jsstring option"
  relevanceScore :: int
  reasoning :: jsstring

text \<open>The interface \<^verbatim>\<open>HuntResult\<close> (lines 8-14).\<close>

record hunt_result =
  desire :: jsstring
  products :: "product list"
  totalSearched :: nat
  totalScraped :: nat
  errors :: "jsstring list"

text \<open>
  What the handler reads of the values the external clients return: the
  \<^verbatim>\<open>translatedQueries\<close> of an analysis, each with \<^verbatim>\<open>query\<close> and
  \<^verbatim>\<open>language\<close>, and the \<^verbatim>\<open>link\<close> of a search result.
\<close>

record translated_query =
  query :: jsstring
  language :: jsstring

record analysis =
  translatedQueries :: "translated_query list"

record search_result =
  link :: jsstring

text \<open>A value that is thrown, or with which a promise is rejected.\<close>

datatype error = TypeError | ServiceError jsstring

text \<open>
  The external calls the handler makes, with their arguments. The handler returns the
  list of calls it made beside its response, so that "no call is made" is a statement
  about a value.
\<close>

datatype call =
  Analyze jsstring
  | Search jsstring jsstring nat
  | Scrape jsstring
  | Extract jsstring jsstring

text \<open>
  The environment of the handler: the four imported client functions, and the string
  primitive \<^verbatim>\<open>String.prototype.toLowerCase\<close>. A client either resolves with a
  value (\<open>Inr\<close>) or throws (\<open>Inl\<close>). The clients are not functions of their
  arguments (the same call can be answered differently the next time), so inside a
  fan-out the outcome may also depend on the index of the branch that makes the call:
  the first argument of \<open>search\<close>, \<open>scrape\<close> and \<open>extractProduct\<close>.
  \<^verbatim>\<open>scrape\<close> resolves with a string or with nothing (\<open>None\<close>), and the value
  \<^verbatim>\<open>extractProduct\<close> resolves with is tested for truthiness by the handler, so it
  may be nothing too.
\<close>

record runtime =
  analyzeDesire :: "jsstring \<Rightarrow> error + analysis"
  search :: "nat \<Rightarrow> jsstring \<Rightarrow> jsstring \<Rightarrow> nat \<Rightarrow> error + search_result list"
  scrape :: "nat \<Rightarrow> jsstring \<Rightarrow> error + jsstring option"
  extractProduct :: "nat \<Rightarrow> jsstring \<Rightarrow> jsstring \<Rightarrow> error + product option"
  toLowerCase :: "jsstring \<Rightarrow> jsstring"

text \<open>
  The request: \<^verbatim>\<open>request.json()\<close> either rejects (the body is not JSON) or
  resolves with a JSON value. In an object a repeated key keeps its last value.
\<close>

datatype json =
  JNull
  | JBool bool
  | JNum real
  | JStr jsstring
  | JArr "json list"
  | JObj "(jsstring \<times> json) list"

datatype request = Invalid_json | Body json

text \<open>
  The response: \<^verbatim>\<open>NextResponse.json({ error: message }, { status })\<close>, or
  \<^verbatim>\<open>NextResponse.json(result)\<close> with the default status 200.
\<close>

datatype response = Json_error jsstring nat | Json_ok hunt_result

section \<open>The handler\<close>

subsection \<open>Validation of the body (lines 18-26)\<close>

definition key_desire :: jsstring where
  "key_desire = [0x64, 0x65, 0x73, 0x69, 0x72, 0x65]"

text \<open>
  \<^verbatim>\<open>const { desire } = body\<close>: destructuring \<^verbatim>\<open>null\<close> throws a TypeError; an
  object gives the value of its property or \<^verbatim>\<open>undefined\<close> (\<open>None\<close>); a
  boolean, a number, a string and an array have no property \<^verbatim>\<open>desire\<close>.
\<close>

fun destructure_desire :: "json \<Rightarrow> error + json option" where
  "destructure_desire JNull = Inl TypeError"
| "destructure_desire (JObj fs) = Inr (map_of (rev fs) key_desire)"
| "destructure_desire (JBool b) = Inr None"
| "destructure_desire (JNum x) = Inr None"
| "destructure_desire (JStr s) = Inr None"
| "destructure_desire (JArr xs) = Inr None"

text \<open>\<^verbatim>\<open>!v\<close>: the falsy values.\<close>

fun falsy :: "json option \<Rightarrow> bool" where
  "falsy None = True"
| "falsy (Some JNull) = True"
| "falsy (Some (JBool b)) = (\<not> b)"
| "falsy (Some (JNum x)) = (x = 0)"
| "falsy (Some (JStr s)) = (s = [])"
| "falsy (Some (JArr xs)) = False"
| "falsy (Some (JObj fs)) = False"

fun typeof :: "json option \<Rightarrow> string" where
  "typeof None = ''undefined''"
| "typeof (Some JNull) = ''object''"
| "typeof (Some (JBool b)) = ''boolean''"
| "typeof (Some (JNum x)) = ''number''"
| "typeof (Some (JStr s)) = ''string''"
| "typeof (Some (JArr xs)) = ''object''"
| "typeof (Some (JObj fs)) = ''object''"

text \<open>The two error responses (lines 22-25 and 113-116), as UTF-16 code units.\<close>

definition bad_request :: response where
  "bad_request =
     Json_error [0x6B32, 0x6C42, 0x3092, 0x5165, 0x529B, 0x3057, 0x3066, 0x304F, 0x3060,
       0x3055, 0x3044] 400"

definition internal_error :: response where
  "internal_error =
     Json_error [0x5185, 0x90E8, 0x30A8, 0x30E9, 0x30FC, 0x304C, 0x767A, 0x751F, 0x3057,
       0x307E, 0x3057, 0x305F] 500"

subsection \<open>Step 2: the search fan-out (lines 41-59)\<close>

definition limitedQueries :: "analysis \<Rightarrow> translated_query list" where
  "limitedQueries a = take 2 (translatedQueries a)"

text \<open>The template string of line 52: a fixed prefix, then the language.\<close>

definition search_error :: "jsstring \<Rightarrow> jsstring" where
  "search_error lang = [0x691C, 0x7D22, 0x30A8, 0x30E9, 0x30FC, 0x3A, 0x20] @ lang"

text \<open>
  The callback of \<^verbatim>\<open>limitedQueries.map\<close> (lines 45-55), for the branch of index
  \<open>i\<close>. It returns the hits of the branch, the entries the branch pushes to
  \<^verbatim>\<open>result.errors\<close>, and the calls it makes.
\<close>

definition search_branch ::
  "runtime \<Rightarrow> nat \<Rightarrow> translated_query \<Rightarrow> search_result list \<times> jsstring list \<times> call list" where
  "search_branch rt i q =
     (case search rt i (query q) (language q) 3 of
        Inr results \<Rightarrow> (results, [], [Search (query q) (language q) 3])
      | Inl e \<Rightarrow> ([], [search_error (language q)], [Search (query q) (language q) 3]))"

text \<open>
  \<^verbatim>\<open>Promise.all\<close> returns the branches' values in the order of the branches. The
  entries pushed by the branches and their calls are collected in the order of the
  branches as well; between two branches that both fail, the order of the two pushes is
  the order in which the two calls complete, which this list does not record.
\<close>

definition searchPromises ::
  "runtime \<Rightarrow> analysis \<Rightarrow> (search_result list \<times> jsstring list \<times> call list) list" where
  "searchPromises rt a = map (\<lambda>(i, q). search_branch rt i q) (enumerate 0 (limitedQueries a))"

definition allSearchResults :: "runtime \<Rightarrow> analysis \<Rightarrow> search_result list" where
  "allSearchResults rt a = concat (map fst (searchPromises rt a))"

definition search_errors :: "runtime \<Rightarrow> analysis \<Rightarrow> jsstring list" where
  "search_errors rt a = concat (map (fst \<circ> snd) (searchPromises rt a))"

definition search_calls :: "runtime \<Rightarrow> analysis \<Rightarrow> call list" where
  "search_calls rt a = concat (map (snd \<circ> snd) (searchPromises rt a))"

subsection \<open>Removing duplicate URLs (lines 61-63)\<close>

text \<open>
  \<^verbatim>\<open>[...new Set(xs)]\<close>: the constructor adds the elements one by one, an element
  already in the set is not added again, and a set is iterated in insertion order.
\<close>

fun set_add_all :: "'a list \<Rightarrow> 'a list \<Rightarrow> 'a list" where
  "set_add_all s [] = s"
| "set_add_all s (x # xs) = set_add_all (if x \<in> set s then s else s @ [x]) xs"

definition uniqueUrls :: "runtime \<Rightarrow> analysis \<Rightarrow> jsstring list" where
  "uniqueUrls rt a = set_add_all [] (map link (allSearchResults rt a))"

definition limitedUrls :: "runtime \<Rightarrow> analysis \<Rightarrow> jsstring list" where
  "limitedUrls rt a = take 5 (uniqueUrls rt a)"

subsection \<open>Step 3: the scrape and extract fan-out (lines 65-84)\<close>

text \<open>
  The callback of \<^verbatim>\<open>limitedUrls.map\<close> (lines 68-81), for the branch of index \<open>i\<close>:
  the value of the branch (\<open>None\<close> for \<^verbatim>\<open>null\<close>) and the calls it makes. The
  branch has no access to \<^verbatim>\<open>result.errors\<close>.
\<close>

definition scrape_branch ::
  "runtime \<Rightarrow> jsstring \<Rightarrow> nat \<Rightarrow> jsstring \<Rightarrow> product option \<times> call list" where
  "scrape_branch rt d i url =
     (case scrape rt i url of
        Inl e \<Rightarrow> (None, [Scrape url])
      | Inr None \<Rightarrow> (None, [Scrape url])
      | Inr (Some content) \<Rightarrow>
          if content \<noteq> [] \<and> length content > 100
          then (case extractProduct rt i content d of
                  Inl e \<Rightarrow> (None, [Scrape url, Extract content d])
                | Inr cand \<Rightarrow> (cand, [Scrape url, Extract content d]))
          else (None, [Scrape url]))"

definition scrapePromises ::
  "runtime \<Rightarrow> jsstring \<Rightarrow> analysis \<Rightarrow> (product option \<times> call list) list" where
  "scrapePromises rt d a =
     map (\<lambda>(i, url). scrape_branch rt d i url) (enumerate 0 (limitedUrls rt a))"

text \<open>The local \<^verbatim>\<open>products\<close> of line 83: one slot for each candidate URL.\<close>

definition scrapedProducts :: "runtime \<Rightarrow> jsstring \<Rightarrow> analysis \<Rightarrow> product option list" where
  "scrapedProducts rt d a = map fst (scrapePromises rt d a)"

definition scrape_calls :: "runtime \<Rightarrow> jsstring \<Rightarrow> analysis \<Rightarrow> call list" where
  "scrape_calls rt d a = concat (map snd (scrapePromises rt d a))"

subsection \<open>Filtering, sorting and truncating (lines 86-106)\<close>

text \<open>
  The predicate of the \<^verbatim>\<open>some\<close> of lines 90-94; \<^verbatim>\<open>p.officialUrl &&\<close> holds for
  a string that is present and not empty.
\<close>

definition same_product :: "(jsstring \<Rightarrow> jsstring) \<Rightarrow> product \<Rightarrow> product \<Rightarrow> bool" where
  "same_product lc p cand \<longleftrightarrow>
     lc (name p) = lc (name cand) \<or>
     (officialUrl p \<noteq> None \<and> officialUrl p \<noteq> Some [] \<and> officialUrl p = officialUrl cand)"

definition isDuplicate :: "(jsstring \<Rightarrow> jsstring) \<Rightarrow> product list \<Rightarrow> product \<Rightarrow> bool" where
  "isDuplicate lc acc cand = list_ex (\<lambda>p. same_product lc p cand) acc"

text \<open>The loop of lines 87-100; \<open>acc\<close> is \<^verbatim>\<open>result.products\<close>.\<close>

fun filter_products ::
  "(jsstring \<Rightarrow> jsstring) \<Rightarrow> product list \<Rightarrow> product option list \<Rightarrow> product list" where
  "filter_products lc acc [] = acc"
| "filter_products lc acc (None # slots) = filter_products lc acc slots"
| "filter_products lc acc (Some cand # slots) =
     (if relevanceScore cand \<ge> 5
      then (if \<not> isDuplicate lc acc cand
            then filter_products lc (acc @ [cand]) slots
            else filter_products lc acc slots)
      else filter_products lc acc slots)"

text \<open>
  \<^verbatim>\<open>sort((a, b) => b.relevanceScore - a.relevanceScore)\<close>. \<^verbatim>\<open>Array.prototype.sort\<close>
  is stable (ECMAScript 2019), and the comparator orders by descending score, so the
  result is that of the stable insertion sort on the negated score.
\<close>

definition sort_products :: "product list \<Rightarrow> product list" where
  "sort_products ps = sort_key (\<lambda>p. - relevanceScore p) ps"

definition final_products :: "runtime \<Rightarrow> jsstring \<Rightarrow> analysis \<Rightarrow> product list" where
  "final_products rt d a =
     take 5 (sort_products (filter_products (toLowerCase rt) [] (scrapedProducts rt d a)))"

subsection \<open>The handler (lines 16-118)\<close>

text \<open>
  Every exception inside the \<^verbatim>\<open>try\<close> block ends in the response of lines 113-116.
  The last case of the inner \<open>case\<close> cannot be reached: a value that is not falsy and
  whose type is \<^verbatim>\<open>string\<close> is a string.
\<close>

definition POST :: "runtime \<Rightarrow> request \<Rightarrow> response \<times> call list" where
  "POST rt req =
     (case req of
        Invalid_json \<Rightarrow> (internal_error, [])
      | Body body \<Rightarrow>
          (case destructure_desire body of
             Inl e \<Rightarrow> (internal_error, [])
           | Inr v \<Rightarrow>
               if falsy v \<or> typeof v \<noteq> ''string'' then (bad_request, [])
               else
                 (case v of
                    Some (JStr d) \<Rightarrow>
                      (case analyzeDesire rt d of
                         Inl e \<Rightarrow> (internal_error, [Analyze d])
                       | Inr a \<Rightarrow>
                           (Json_ok
                              \<lparr>desire = d,
                               products = final_products rt d a,
                               totalSearched = length (allSearchResults rt a),
                               totalScraped = length (limitedUrls rt a),
                               errors = search_errors rt a\<rparr>,
                            Analyze d # search_calls rt a @ scrape_calls rt d a))
                  | _ \<Rightarrow> (internal_error, []))))"

section \<open>Notions used to state the properties\<close>

text \<open>The products of the slots that hold one, in the order of the candidates.\<close>

definition extracted :: "'a option list \<Rightarrow> 'a list" where
  "extracted slots = List.map_filter (\<lambda>s. s) slots"

text \<open>
  The merger as the specification words it: of each distinct element only the first
  occurrence is preserved, that is, the element at position \<open>i\<close> stays when it does not
  occur at an earlier position.
\<close>

definition first_occurrences :: "'a list \<Rightarrow> 'a list" where
  "first_occurrences xs =
     map (\<lambda>i. xs ! i) (filter (\<lambda>i. xs ! i \<notin> set (take i xs)) [0..<length xs])"

text \<open>
  The position at which a product is first encountered: the index of the first slot
  that holds it (the number of slots when none does).
\<close>

definition first_slot :: "'a option list \<Rightarrow> 'a \<Rightarrow> nat" where
  "first_slot slots p = length (takeWhile (\<lambda>s. s \<noteq> Some p) slots)"

fun is_scrape :: "call \<Rightarrow> bool" where
  "is_scrape (Scrape u) = True"
| "is_scrape c = False"

fun is_extract :: "call \<Rightarrow> bool" where
  "is_extract (Extract c d) = True"
| "is_extract c = False"

text \<open>Whether the search call of a branch throws.\<close>

definition search_fails :: "runtime \<Rightarrow> nat \<times> translated_query \<Rightarrow> bool" where
  "search_fails rt = (\<lambda>(i, q). isl (search rt i (query q) (language q) 3))"

section \<open>Stand-in clients and four concrete runs\<close>

text \<open>
  Stand-ins for the clients, answering the call of branch \<open>i\<close> with the \<open>i\<close>-th
  entry of a list (and throwing beyond its end), and a lower-casing of the ASCII
  letters.
\<close>

definition answer :: "(error + 'a) list \<Rightarrow> nat \<Rightarrow> error + 'a" where
  "answer xs i = (if i < length xs then xs ! i else Inl (ServiceError []))"

definition ascii_lower :: "jsstring \<Rightarrow> jsstring" where
  "ascii_lower s = map (\<lambda>w. if 0x41 \<le> w \<and> w \<le> 0x5A then w + 0x20 else w) s"

definition stub_runtime ::
  "(error + analysis) \<Rightarrow> (error + search_result list) list \<Rightarrow>
   (error + jsstring option) list \<Rightarrow> (error + product option) list \<Rightarrow> runtime" where
  "stub_runtime an searches scrapes extracts =
     \<lparr>analyzeDesire = (\<lambda>d. an),
      search = (\<lambda>i q l n. answer searches i),
      scrape = (\<lambda>i u. answer scrapes i),
      extractProduct = (\<lambda>i c d. answer extracts i),
      toLowerCase = ascii_lower\<rparr>"

definition mk_product :: "jsstring \<Rightarrow> jsstring option \<Rightarrow> int \<Rightarrow> product" where
  "mk_product n u s =
     \<lparr>name = n, brand = [], description = [], price = None, officialUrl = u,
      amazonUrl = None, rakutenUrl = None, relevanceScore = s, reasoning = []\<rparr>"

text \<open>The desire \<^verbatim>\<open>focus\<close>, and an analysis with an English and a Japanese query.\<close>

definition focus :: jsstring where
  "focus = [0x66, 0x6F, 0x63, 0x75, 0x73]"

definition query_en :: translated_query where
  "query_en = \<lparr>query = [0x66, 0x6F, 0x63, 0x75, 0x73], language = [0x65, 0x6E]\<rparr>"

definition query_ja :: translated_query where
  "query_ja = \<lparr>query = [0x96C6, 0x4E2D], language = [0x6A, 0x61]\<rparr>"

definition two_queries :: analysis where
  "two_queries = \<lparr>translatedQueries = [query_en, query_ja]\<rparr>"

definition focus_request :: request where
  "focus_request = Body (JObj [(key_desire, JStr focus)])"

text \<open>A page of 101 code units, and one of 100.\<close>

definition long_page :: jsstring where
  "long_page = replicate 101 0x78"

definition page_100 :: jsstring where
  "page_100 = replicate 100 0x78"

text \<open>
  First run. Both searches succeed, with the links \<^verbatim>\<open>a b c\<close> and \<^verbatim>\<open>b d e f\<close>;
  every page is long enough; the five extractions give \<^verbatim>\<open>Tea\<close> (score 7),
  \<^verbatim>\<open>Pill\<close> (score 11), \<^verbatim>\<open>TEA\<close> (score 9), \<^verbatim>\<open>Cup\<close> (score 4) and
  \<^verbatim>\<open>Nap\<close> (score 7).
\<close>

definition tea :: product where
  "tea = mk_product [0x54, 0x65, 0x61] None 7"

definition pill :: product where
  "pill = mk_product [0x50, 0x69, 0x6C, 0x6C] None 11"

definition tea_upper :: product where
  "tea_upper = mk_product [0x54, 0x45, 0x41] None 9"

definition cup :: product where
  "cup = mk_product [0x43, 0x75, 0x70] None 4"

definition nap :: product where
  "nap = mk_product [0x4E, 0x61, 0x70] None 7"

definition run1 :: runtime where
  "run1 =
     stub_runtime (Inr two_queries)
       [Inr [\<lparr>link = [0x61]\<rparr>, \<lparr>link = [0x62]\<rparr>, \<lparr>link = [0x63]\<rparr>],
        Inr [\<lparr>link = [0x62]\<rparr>, \<lparr>link = [0x64]\<rparr>, \<lparr>link = [0x65]\<rparr>, \<lparr>link = [0x66]\<rparr>]]
       [Inr (Some long_page), Inr (Some long_page), Inr (Some long_page),
        Inr (Some long_page), Inr (Some long_page)]
       [Inr (Some tea), Inr (Some pill), Inr (Some tea_upper), Inr (Some cup), Inr (Some nap)]"

definition result1 :: hunt_result where
  "result1 =
     \<lparr>desire = focus, products = [pill, tea, nap], totalSearched = 7, totalScraped = 5,
      errors = []\<rparr>"

definition calls1 :: "call list" where
  "calls1 =
     [Analyze focus, Search (query query_en) (language query_en) 3,
      Search (query query_ja) (language query_ja) 3,
      Scrape [0x61], Extract long_page focus, Scrape [0x62], Extract long_page focus,
      Scrape [0x63], Extract long_page focus, Scrape [0x64], Extract long_page focus,
      Scrape [0x65], Extract long_page focus]"

text \<open>
  Second run. The English search throws and the Japanese one gives the links
  \<^verbatim>\<open>A B A C\<close>; the page of \<^verbatim>\<open>A\<close> has 100 code units, the two others are
  longer; the extractions for \<^verbatim>\<open>B\<close> and \<^verbatim>\<open>C\<close> give \<^verbatim>\<open>Chai\<close> (score 8)
  and \<^verbatim>\<open>Masala\<close> (score 9), with the same official URL.
\<close>

definition chai :: product where
  "chai = mk_product [0x43, 0x68, 0x61, 0x69] (Some [0x68]) 8"

definition masala :: product where
  "masala = mk_product [0x4D, 0x61, 0x73, 0x61, 0x6C, 0x61] (Some [0x68]) 9"

definition run2 :: runtime where
  "run2 =
     stub_runtime (Inr two_queries)
       [Inl (ServiceError []),
        Inr [\<lparr>link = [0x41]\<rparr>, \<lparr>link = [0x42]\<rparr>, \<lparr>link = [0x41]\<rparr>, \<lparr>link = [0x43]\<rparr>]]
       [Inr (Some page_100), Inr (Some long_page), Inr (Some long_page)]
       [Inr (Some tea), Inr (Some chai), Inr (Some masala)]"

definition result2 :: hunt_result where
  "result2 =
     \<lparr>desire = focus, products = [chai], totalSearched = 4, totalScraped = 3,
      errors = [search_error [0x65, 0x6E]]\<rparr>"

definition calls2 :: "call list" where
  "calls2 =
     [Analyze focus, Search (query query_en) (language query_en) 3,
      Search (query query_ja) (language query_ja) 3,
      Scrape [0x41], Scrape [0x42], Extract long_page focus,
      Scrape [0x43], Extract long_page focus]"

text \<open>Third run: the clients of the first run, but the analysis throws.\<close>

definition run3 :: runtime where
  "run3 = run1\<lparr>analyzeDesire := (\<lambda>d. Inl (ServiceError []))\<rparr>"

text \<open>
  Fourth run: the searches of the second run; every page is long enough; the three
  extractions give \<^verbatim>\<open>x\<close> (score 7, official URL \<^verbatim>\<open>u1\<close>), \<^verbatim>\<open>X\<close> (score 9,
  official URL \<^verbatim>\<open>u2\<close>) and \<^verbatim>\<open>y\<close> (score 8, official URL \<^verbatim>\<open>u2\<close>).
\<close>

definition letter_x :: product where
  "letter_x = mk_product [0x78] (Some [0x75, 0x31]) 7"

definition capital_x :: product where
  "capital_x = mk_product [0x58] (Some [0x75, 0x32]) 9"

definition letter_y :: product where
  "letter_y = mk_product [0x79] (Some [0x75, 0x32]) 8"

definition run4 :: runtime where
  "run4 =
     stub_runtime (Inr two_queries)
       [Inl (ServiceError []),
        Inr [\<lparr>link = [0x41]\<rparr>, \<lparr>link = [0x42]\<rparr>, \<lparr>link = [0x41]\<rparr>, \<lparr>link = [0x43]\<rparr>]]
       [Inr (Some long_page), Inr (Some long_page), Inr (Some long_page)]
       [Inr (Some letter_x), Inr (Some capital_x), Inr (Some letter_y)]"

definition result4 :: hunt_result where
  "result4 =
     \<lparr>desire = focus, products = [letter_y, letter_x], totalSearched = 4, totalScraped = 3,
      errors = [search_error [0x65, 0x6E]]\<rparr>"

definition calls4 :: "call list" where
  "calls4 =
     [Analyze focus, Search (query query_en) (language query_en) 3,
      Search (query query_ja) (language query_ja) 3,
      Scrape [0x41], Extract long_page focus, Scrape [0x42], Extract long_page focus,
      Scrape [0x43], Extract long_page focus]"

section \<open>Lemmas\<close>

subsection \<open>The filtering loop\<close>

lemma extracted_simps [simp]:
  "extracted [] = []"
  "extracted (None # slots) = extracted slots"
  "extracted (Some x # slots) = x # extracted slots"
  by (simp_all add: extracted_def)

lemma filter_products_append:
  "filter_products lc acc (xs @ ys) = filter_products lc (filter_products lc acc xs) ys"
proof (induction xs arbitrary: acc)
  case Nil
  show ?case by simp
next
  case (Cons x xs)
  show ?case by (cases x) (simp_all add: Cons.IH)
qed

lemma filter_products_extends:
  "\<exists>zs. filter_products lc acc slots = acc @ zs \<and> subseq zs (extracted slots)
     \<and> length zs \<le> length slots"
proof (induction slots arbitrary: acc)
  case Nil
  show ?case by simp
next
  case (Cons s slots)
  show ?case
  proof (cases s)
    case None
    from Cons.IH [of acc] obtain zs where
      "filter_products lc acc slots = acc @ zs" "subseq zs (extracted slots)"
      "length zs \<le> length slots" by blast
    with None show ?thesis by auto
  next
    case (Some c)
    show ?thesis
    proof (cases "relevanceScore c \<ge> 5 \<and> \<not> isDuplicate lc acc c")
      case True
      from Cons.IH [of "acc @ [c]"] obtain zs where
        "filter_products lc (acc @ [c]) slots = (acc @ [c]) @ zs" "subseq zs (extracted slots)"
        "length zs \<le> length slots" by blast
      with Some True have "filter_products lc acc (s # slots) = acc @ (c # zs)
        \<and> subseq (c # zs) (extracted (s # slots)) \<and> length (c # zs) \<le> length (s # slots)"
        by simp
      then show ?thesis by blast
    next
      case False
      from Cons.IH [of acc] obtain zs where
        "filter_products lc acc slots = acc @ zs" "subseq zs (extracted slots)"
        "length zs \<le> length slots" by blast
      with Some False have "filter_products lc acc (s # slots) = acc @ zs
        \<and> subseq zs (extracted (s # slots)) \<and> length zs \<le> length (s # slots)"
        by auto
      then show ?thesis by blast
    qed
  qed
qed

lemma filter_products_origin:
  "p \<in> set (filter_products lc acc slots) \<Longrightarrow>
     p \<in> set acc \<or> (Some p \<in> set slots \<and> relevanceScore p \<ge> 5)"
proof (induction slots arbitrary: acc)
  case Nil
  then show ?case by simp
next
  case (Cons s slots)
  show ?case
  proof (cases s)
    case None
    with Cons show ?thesis by auto
  next
    case (Some c)
    with Cons.prems Cons.IH [of "acc @ [c]"] Cons.IH [of acc] show ?thesis
      by (auto split: if_splits)
  qed
qed


subsection \<open>Lengths, the sort and the responses\<close>

lemma length_scrapedProducts: "length (scrapedProducts rt d a) = length (limitedUrls rt a)"
  by (simp add: scrapedProducts_def scrapePromises_def)

lemma length_limitedUrls: "length (limitedUrls rt a) \<le> 5"
  by (simp add: limitedUrls_def)

lemma length_filter_products:
  "length (filter_products lc [] slots) \<le> length slots"
  using filter_products_extends [of lc "[]" slots] by auto

lemma final_products_eq:
  "final_products rt d a =
     sort_products (filter_products (toLowerCase rt) [] (scrapedProducts rt d a))"
proof -
  have "length (filter_products (toLowerCase rt) [] (scrapedProducts rt d a)) \<le> 5"
    using length_filter_products [of "toLowerCase rt" "scrapedProducts rt d a"]
      length_limitedUrls [of rt a]
    by (simp add: length_scrapedProducts)
  then show ?thesis
    by (simp add: final_products_def sort_products_def)
qed

lemma sorted_sort_products:
  "sorted_wrt (\<lambda>p q. relevanceScore p \<ge> relevanceScore q) (sort_products ps)"
proof -
  have "sorted (map (\<lambda>p. - relevanceScore p) (sort_key (\<lambda>p. - relevanceScore p) ps))"
    by (rule sorted_sort_key)
  then show ?thesis
    by (simp add: sort_products_def sorted_map)
qed

lemma stable_sort_products:
  "filter (\<lambda>p. relevanceScore p = k) (sort_products ps) = filter (\<lambda>p. relevanceScore p = k) ps"
proof -
  have "filter (\<lambda>p. - relevanceScore p = - k) (sort_key (\<lambda>p. - relevanceScore p) ps)
      = filter (\<lambda>p. - relevanceScore p = - k) ps"
    by (rule sort_key_stable)
  then show ?thesis
    by (simp add: sort_products_def)
qed

lemma set_sort_products: "set (sort_products ps) = set ps"
  by (simp add: sort_products_def)

lemma mset_sort_products: "mset (sort_products ps) = mset ps"
  by (simp add: sort_products_def)

lemma POST_ok:
  assumes "POST rt req = (Json_ok r, cs)"
  obtains d a where
    "d = desire r"
    "analyzeDesire rt d = Inr a"
    "r = \<lparr>desire = d, products = final_products rt d a,
          totalSearched = length (allSearchResults rt a),
          totalScraped = length (limitedUrls rt a), errors = search_errors rt a\<rparr>"
    "cs = Analyze d # search_calls rt a @ scrape_calls rt d a"
  using assms
  by (auto simp: POST_def bad_request_def internal_error_def
      split: request.splits sum.splits if_splits option.splits json.splits)

lemma POST_valid:
  assumes "destructure_desire body = Inr (Some (JStr d))" "d \<noteq> []"
  shows "POST rt (Body body) =
    (case analyzeDesire rt d of
       Inl e \<Rightarrow> (internal_error, [Analyze d])
     | Inr a \<Rightarrow>
        (Json_ok \<lparr>desire = d, products = final_products rt d a,
          totalSearched = length (allSearchResults rt a),
          totalScraped = length (limitedUrls rt a), errors = search_errors rt a\<rparr>,
         Analyze d # search_calls rt a @ scrape_calls rt d a))"
  using assms by (simp add: POST_def)



subsection \<open>The first run\<close>

lemma stub_runtime_sel:
  "analyzeDesire (stub_runtime an ss cs es) d = an"
  "search (stub_runtime an ss cs es) i q l n = answer ss i"
  "scrape (stub_runtime an ss cs es) i u = answer cs i"
  "extractProduct (stub_runtime an ss cs es) i c d = answer es i"
  "toLowerCase (stub_runtime an ss cs es) = ascii_lower"
  by (simp_all add: stub_runtime_def)

lemma answer_simps:
  "answer (x # xs) 0 = x"
  "answer (x # xs) (Suc i) = answer xs i"
  "answer [] i = Inl (ServiceError [])"
  by (simp_all add: answer_def)

lemma length_long_page: "length long_page = 101" "long_page \<noteq> []"
  by (simp_all add: long_page_def)

lemma run1_analysis: "analyzeDesire run1 focus = Inr two_queries"
  by (simp add: run1_def stub_runtime_sel)

lemma run1_search:
  "searchPromises run1 two_queries =
    [([\<lparr>link = [0x61]\<rparr>, \<lparr>link = [0x62]\<rparr>, \<lparr>link = [0x63]\<rparr>], [],
       [Search (query query_en) (language query_en) 3]),
     ([\<lparr>link = [0x62]\<rparr>, \<lparr>link = [0x64]\<rparr>, \<lparr>link = [0x65]\<rparr>, \<lparr>link = [0x66]\<rparr>], [],
       [Search (query query_ja) (language query_ja) 3])]"
  by (simp add: searchPromises_def limitedQueries_def two_queries_def
      search_branch_def run1_def stub_runtime_sel answer_simps)

lemma run1_urls: "limitedUrls run1 two_queries = [[0x61], [0x62], [0x63], [0x64], [0x65]]"
  by (simp add: limitedUrls_def uniqueUrls_def allSearchResults_def run1_search)

lemma run1_slots:
  "scrapePromises run1 focus two_queries =
     [(Some tea, [Scrape [0x61], Extract long_page focus]),
      (Some pill, [Scrape [0x62], Extract long_page focus]),
      (Some tea_upper, [Scrape [0x63], Extract long_page focus]),
      (Some cup, [Scrape [0x64], Extract long_page focus]),
      (Some nap, [Scrape [0x65], Extract long_page focus])]"
proof -
  have "scrapePromises run1 focus two_queries =
    map (\<lambda>(i, url). scrape_branch run1 focus i url)
      (enumerate 0 [[0x61], [0x62], [0x63], [0x64], [0x65]])"
    by (simp only: scrapePromises_def run1_urls)
  then show ?thesis
    by (simp add: scrape_branch_def run1_def stub_runtime_sel answer_simps length_long_page)
qed

lemma run1_kept:
  "filter_products ascii_lower [] [Some tea, Some pill, Some tea_upper, Some cup, Some nap]
     = [tea, pill, nap]"
  by (simp add: isDuplicate_def same_product_def ascii_lower_def tea_def pill_def
      tea_upper_def cup_def nap_def mk_product_def)




lemma run1_products: "final_products run1 focus two_queries = [pill, tea, nap]"
proof -
  have lc: "toLowerCase run1 = ascii_lower"
    by (simp add: run1_def stub_runtime_sel)
  have "scrapedProducts run1 focus two_queries =
      [Some tea, Some pill, Some tea_upper, Some cup, Some nap]"
    by (simp add: scrapedProducts_def run1_slots)
  then have "final_products run1 focus two_queries = take 5 (sort_products [tea, pill, nap])"
    by (simp only: final_products_def lc run1_kept)
  also have "\<dots> = [pill, tea, nap]"
    by (simp add: sort_products_def tea_def pill_def nap_def mk_product_def)
  finally show ?thesis .
qed

lemma run1_counts:
  "length (allSearchResults run1 two_queries) = 7"
  "length (limitedUrls run1 two_queries) = 5"
  "search_errors run1 two_queries = []"
  "search_calls run1 two_queries =
     [Search (query query_en) (language query_en) 3, Search (query query_ja) (language query_ja) 3]"
  by (simp_all add: allSearchResults_def search_errors_def search_calls_def run1_search run1_urls)

lemma run1_scrape_calls:
  "scrape_calls run1 focus two_queries =
     [Scrape [0x61], Extract long_page focus, Scrape [0x62], Extract long_page focus,
      Scrape [0x63], Extract long_page focus, Scrape [0x64], Extract long_page focus,
      Scrape [0x65], Extract long_page focus]"
  by (simp add: scrape_calls_def run1_slots)

lemma focus_request_valid:
  "destructure_desire (JObj [(key_desire, JStr focus)]) = Inr (Some (JStr focus))"
  "focus \<noteq> []"
  by (simp_all add: focus_def)


lemma run1_POST: "POST run1 focus_request = (Json_ok result1, calls1)"
  unfolding focus_request_def
  by (simp only: POST_valid [OF focus_request_valid] run1_analysis sum.case run1_products
      run1_counts run1_scrape_calls result1_def calls1_def append.simps)

lemma result1_sel:
  "desire result1 = focus" "products result1 = [pill, tea, nap]"
  "totalSearched result1 = 7" "totalScraped result1 = 5" "errors result1 = []"
  by (simp_all add: result1_def)


subsection \<open>Duplicates\<close>

lemma not_duplicate_fresh:
  assumes "\<not> isDuplicate lc acc c"
  shows "lc (name c) \<notin> set (map (\<lambda>p. lc (name p)) acc)"
    and "officialUrl c \<noteq> None \<and> officialUrl c \<noteq> Some [] \<Longrightarrow>
         officialUrl c \<notin> set (map officialUrl acc)"
  using assms by (auto simp: isDuplicate_def list_ex_iff same_product_def)

lemma filter_products_distinct:
  assumes "distinct (map (\<lambda>p. lc (name p)) acc)"
    and "distinct (filter (\<lambda>u. u \<noteq> None \<and> u \<noteq> Some []) (map officialUrl acc))"
  shows "distinct (map (\<lambda>p. lc (name p)) (filter_products lc acc slots))
    \<and> distinct (filter (\<lambda>u. u \<noteq> None \<and> u \<noteq> Some [])
         (map officialUrl (filter_products lc acc slots)))"
  using assms
proof (induction slots arbitrary: acc)
  case Nil
  then show ?case by simp
next
  case (Cons s slots)
  show ?case
  proof (cases s)
    case None
    with Cons show ?thesis by simp
  next
    case (Some c)
    show ?thesis
    proof (cases "relevanceScore c \<ge> 5 \<and> \<not> isDuplicate lc acc c")
      case True
      then have fresh: "lc (name c) \<notin> set (map (\<lambda>p. lc (name p)) acc)"
        "officialUrl c \<noteq> None \<and> officialUrl c \<noteq> Some [] \<Longrightarrow>
           officialUrl c \<notin> set (map officialUrl acc)"
        using not_duplicate_fresh [of lc acc c] by blast+
      have "distinct (map (\<lambda>p. lc (name p)) (acc @ [c]))"
        using Cons.prems(1) fresh(1) by simp
      moreover have "distinct (filter (\<lambda>u. u \<noteq> None \<and> u \<noteq> Some [])
          (map officialUrl (acc @ [c])))"
        using Cons.prems(2) fresh(2) by auto
      ultimately show ?thesis
        using Cons.IH [of "acc @ [c]"] Some True by simp
    next
      case False
      with Cons.IH [OF Cons.prems] Some show ?thesis by auto
    qed
  qed
qed

lemma distinct_map_sort_products:
  "distinct (map f (sort_products ps)) = distinct (map f ps)"
proof -
  have "mset (map f (sort_products ps)) = mset (map f ps)"
    by (simp add: mset_sort_products)
  then show ?thesis by (rule mset_eq_imp_distinct_iff)
qed

lemma distinct_filter_map_sort_products:
  "distinct (filter P (map f (sort_products ps))) = distinct (filter P (map f ps))"
proof -
  have "mset (filter P (map f (sort_products ps))) = mset (filter P (map f ps))"
    by (simp add: mset_sort_products)
  then show ?thesis by (rule mset_eq_imp_distinct_iff)
qed

lemma filter_products_mono:
  "set acc \<subseteq> set (filter_products lc acc slots)"
  using filter_products_extends [of lc acc slots] by auto

lemma filter_products_first_kept:
  assumes "j < length slots" and "slots ! j = Some c" and "relevanceScore c \<ge> 5"
  shows "\<not> isDuplicate lc (filter_products lc [] (take j slots)) c \<Longrightarrow>
           c \<in> set (filter_products lc [] slots)"
    and "isDuplicate lc (filter_products lc [] (take j slots)) c \<Longrightarrow>
           \<exists>i<j. \<exists>p \<in> set (filter_products lc [] slots).
             slots ! i = Some p \<and> same_product lc p c"
proof -
  let ?R = "filter_products lc [] (take j slots)"
  have split: "slots = take j slots @ [Some c] @ drop (Suc j) slots"
    using id_take_nth_drop [OF assms(1)] assms(2) by simp
  have "filter_products lc [] slots =
      filter_products lc [] (take j slots @ [Some c] @ drop (Suc j) slots)"
    by (rule arg_cong [where f = "filter_products lc []", OF split])
  also have "\<dots> = filter_products lc (filter_products lc ?R [Some c]) (drop (Suc j) slots)"
    by (simp only: filter_products_append)
  finally have res: "filter_products lc [] slots =
      filter_products lc (filter_products lc ?R [Some c]) (drop (Suc j) slots)" .
  have R_sub: "set ?R \<subseteq> set (filter_products lc [] slots)"
  proof -
    have "set ?R \<subseteq> set (filter_products lc ?R [Some c])"
      by (rule filter_products_mono)
    also have "\<dots> \<subseteq> set (filter_products lc [] slots)"
      unfolding res by (rule filter_products_mono)
    finally show ?thesis .
  qed
  {
    assume "\<not> isDuplicate lc ?R c"
    with assms(3) have "filter_products lc ?R [Some c] = ?R @ [c]" by simp
    then have "c \<in> set (filter_products lc ?R [Some c])" by simp
    then show "c \<in> set (filter_products lc [] slots)"
      unfolding res using filter_products_mono by blast
  }
  {
    assume "isDuplicate lc ?R c"
    then obtain p where p: "p \<in> set ?R" "same_product lc p c"
      by (auto simp: isDuplicate_def list_ex_iff)
    from filter_products_origin [OF p(1)] have "Some p \<in> set (take j slots)" by simp
    then obtain i where "i < length (take j slots)" "take j slots ! i = Some p"
      by (auto simp: in_set_conv_nth)
    then have "i < j" "slots ! i = Some p" by simp_all
    with p R_sub show "\<exists>i<j. \<exists>p \<in> set (filter_products lc [] slots).
             slots ! i = Some p \<and> same_product lc p c" by blast
  }
qed

lemma run1_scrapedProducts:
  "scrapedProducts run1 focus two_queries =
     [Some tea, Some pill, Some tea_upper, Some cup, Some nap]"
  by (simp add: scrapedProducts_def run1_slots)

lemma run1_lower: "toLowerCase run1 = ascii_lower"
  by (simp add: run1_def stub_runtime_sel)

lemma run1_names:
  "map (\<lambda>p. ascii_lower (name p)) [pill, tea, nap] =
     [[0x70, 0x69, 0x6C, 0x6C], [0x74, 0x65, 0x61], [0x6E, 0x61, 0x70]]"
  "ascii_lower (name tea_upper) = [0x74, 0x65, 0x61]"
  "relevanceScore tea_upper = 9"
  by (simp_all add: ascii_lower_def pill_def tea_def nap_def tea_upper_def mk_product_def)

subsection \<open>The search stage and the merger\<close>

lemma branch_errors:
  "concat (map (\<lambda>(i, q). fst (snd (search_branch rt i q))) xs) =
     map (\<lambda>(i, q). search_error (language q)) (filter (search_fails rt) xs)"
proof (induction xs)
  case Nil
  show ?case by simp
next
  case (Cons x xs)
  obtain i q where x: "x = (i, q)" by (cases x)
  have "fst (snd (search_branch rt i q)) =
      (if search_fails rt (i, q) then [search_error (language q)] else [])"
    by (cases "search rt i (query q) (language q) 3")
      (simp_all add: search_branch_def search_fails_def)
  then show ?case by (simp add: x Cons.IH)
qed

lemma search_errors_eq:
  "search_errors rt a =
     map (\<lambda>(i, q). search_error (language q))
       (filter (search_fails rt) (enumerate 0 (limitedQueries a)))"
proof -
  have "search_errors rt a =
      concat (map (\<lambda>(i, q). fst (snd (search_branch rt i q))) (enumerate 0 (limitedQueries a)))"
    by (simp add: search_errors_def searchPromises_def comp_def case_prod_unfold)
  then show ?thesis by (simp only: branch_errors)
qed

lemma set_add_all_snoc:
  "set_add_all s (xs @ [x]) =
     (if x \<in> set (set_add_all s xs) then set_add_all s xs else set_add_all s xs @ [x])"
  by (induction xs arbitrary: s) simp_all

lemma set_set_add_all: "set (set_add_all s xs) = set s \<union> set xs"
  by (induction xs arbitrary: s) auto

lemma first_occurrences_snoc:
  "first_occurrences (xs @ [x]) = first_occurrences xs @ (if x \<in> set xs then [] else [x])"
proof -
  have "filter (\<lambda>i. (xs @ [x]) ! i \<notin> set (take i (xs @ [x]))) [0..<length xs] =
      filter (\<lambda>i. xs ! i \<notin> set (take i xs)) [0..<length xs]"
    by (rule filter_cong) (simp_all add: nth_append)
  moreover have "map (\<lambda>i. (xs @ [x]) ! i) (filter (\<lambda>i. xs ! i \<notin> set (take i xs)) [0..<length xs])
      = map (\<lambda>i. xs ! i) (filter (\<lambda>i. xs ! i \<notin> set (take i xs)) [0..<length xs])"
    by (rule map_cong) (simp_all add: nth_append)
  ultimately show ?thesis
    by (simp add: first_occurrences_def)
qed

lemma set_add_all_first_occurrences: "set_add_all [] xs = first_occurrences xs"
proof (induction xs rule: rev_induct)
  case Nil
  show ?case by (simp add: first_occurrences_def)
next
  case (snoc x xs)
  show ?case
    by (simp only: set_add_all_snoc first_occurrences_snoc snoc.IH [symmetric] set_set_add_all)
      simp
qed

lemma limitedUrls_first_occurrences:
  "limitedUrls rt a = take 5 (first_occurrences (map link (allSearchResults rt a)))"
  by (simp add: limitedUrls_def uniqueUrls_def set_add_all_first_occurrences)

lemma branch_scrape_calls:
  "filter is_scrape (concat (map (\<lambda>(i, u). snd (scrape_branch rt d i u)) xs)) =
     map (\<lambda>(i, u). Scrape u) xs"
proof (induction xs)
  case Nil
  show ?case by simp
next
  case (Cons x xs)
  obtain i u where x: "x = (i, u)" by (cases x)
  have "filter is_scrape (snd (scrape_branch rt d i u)) = [Scrape u]"
    by (simp add: scrape_branch_def split: sum.splits option.splits)
  then show ?case by (simp add: x Cons.IH)
qed

lemma filter_scrape_search_calls: "filter is_scrape (search_calls rt a) = []"
  by (auto simp: search_calls_def searchPromises_def search_branch_def filter_empty_conv
      split: sum.splits)

lemma filter_scrape_scrape_calls:
  "filter is_scrape (scrape_calls rt d a) = map Scrape (limitedUrls rt a)"
proof -
  have "scrape_calls rt d a =
      concat (map (\<lambda>(i, u). snd (scrape_branch rt d i u)) (enumerate 0 (limitedUrls rt a)))"
    by (simp add: scrape_calls_def scrapePromises_def comp_def case_prod_unfold)
  then have "filter is_scrape (scrape_calls rt d a) =
      map (\<lambda>(i, u). Scrape u) (enumerate 0 (limitedUrls rt a))"
    by (simp only: branch_scrape_calls)
  also have "\<dots> = map (Scrape \<circ> snd) (enumerate 0 (limitedUrls rt a))"
    by (simp add: case_prod_unfold comp_def)
  also have "\<dots> = map Scrape (map snd (enumerate 0 (limitedUrls rt a)))"
    by (simp only: map_map)
  also have "\<dots> = map Scrape (limitedUrls rt a)"
    by (simp only: map_snd_enumerate)
  finally show ?thesis .
qed

subsection \<open>The second run\<close>

lemma length_page_100: "length page_100 = 100"
  by (simp add: page_100_def)

lemma run2_analysis: "analyzeDesire run2 focus = Inr two_queries"
  by (simp add: run2_def stub_runtime_sel)

lemma run2_lower: "toLowerCase run2 = ascii_lower"
  by (simp add: run2_def stub_runtime_sel)

lemma run2_queries: "limitedQueries two_queries = [query_en, query_ja]"
  by (simp add: limitedQueries_def two_queries_def)

lemma run2_search_calls:
  "search run2 0 (query query_en) (language query_en) 3 = Inl (ServiceError [])"
  "search run2 1 (query query_ja) (language query_ja) 3 =
     Inr [\<lparr>link = [0x41]\<rparr>, \<lparr>link = [0x42]\<rparr>, \<lparr>link = [0x41]\<rparr>, \<lparr>link = [0x43]\<rparr>]"
  by (simp_all add: run2_def stub_runtime_sel answer_def)

lemma run2_search:
  "searchPromises run2 two_queries =
    [([], [search_error [0x65, 0x6E]], [Search (query query_en) (language query_en) 3]),
     ([\<lparr>link = [0x41]\<rparr>, \<lparr>link = [0x42]\<rparr>, \<lparr>link = [0x41]\<rparr>, \<lparr>link = [0x43]\<rparr>], [],
       [Search (query query_ja) (language query_ja) 3])]"
proof -
  have "language query_en = [0x65, 0x6E]"
    by (simp add: query_en_def)
  then show ?thesis
    by (simp add: searchPromises_def run2_queries search_branch_def run2_def stub_runtime_sel
        answer_simps)
qed

lemma run2_hits:
  "map link (allSearchResults run2 two_queries) = [[0x41], [0x42], [0x41], [0x43]]"
  by (simp add: allSearchResults_def run2_search)

lemma run2_urls: "limitedUrls run2 two_queries = [[0x41], [0x42], [0x43]]"
  by (simp add: limitedUrls_def uniqueUrls_def run2_hits)

lemma run2_slots:
  "scrapePromises run2 focus two_queries =
     [(None, [Scrape [0x41]]),
      (Some chai, [Scrape [0x42], Extract long_page focus]),
      (Some masala, [Scrape [0x43], Extract long_page focus])]"
proof -
  have "scrapePromises run2 focus two_queries =
    map (\<lambda>(i, url). scrape_branch run2 focus i url) (enumerate 0 [[0x41], [0x42], [0x43]])"
    by (simp only: scrapePromises_def run2_urls)
  then show ?thesis
    by (simp add: scrape_branch_def run2_def stub_runtime_sel answer_simps length_long_page
        length_page_100)
qed

lemma run2_scrapedProducts:
  "scrapedProducts run2 focus two_queries = [None, Some chai, Some masala]"
  by (simp add: scrapedProducts_def run2_slots)

lemma run2_kept: "filter_products ascii_lower [] [None, Some chai, Some masala] = [chai]"
  by (simp add: isDuplicate_def same_product_def ascii_lower_def chai_def masala_def
      mk_product_def)

lemma run2_products: "final_products run2 focus two_queries = [chai]"
proof -
  have "final_products run2 focus two_queries = take 5 (sort_products [chai])"
    by (simp only: final_products_def run2_scrapedProducts run2_lower run2_kept)
  then show ?thesis by (simp add: sort_products_def)
qed

lemma run2_counts:
  "length (allSearchResults run2 two_queries) = 4"
  "length (limitedUrls run2 two_queries) = 3"
  "search_errors run2 two_queries = [search_error [0x65, 0x6E]]"
  "search_calls run2 two_queries =
     [Search (query query_en) (language query_en) 3, Search (query query_ja) (language query_ja) 3]"
  by (simp_all add: allSearchResults_def search_errors_def search_calls_def run2_search run2_urls)

lemma run2_scrape_calls:
  "scrape_calls run2 focus two_queries =
     [Scrape [0x41], Scrape [0x42], Extract long_page focus, Scrape [0x43],
      Extract long_page focus]"
  by (simp add: scrape_calls_def run2_slots)

lemma run2_POST: "POST run2 focus_request = (Json_ok result2, calls2)"
  unfolding focus_request_def
  by (simp only: POST_valid [OF focus_request_valid] run2_analysis sum.case run2_products
      run2_counts run2_scrape_calls result2_def calls2_def append.simps)

lemma result2_sel:
  "desire result2 = focus" "products result2 = [chai]"
  "totalSearched result2 = 4" "totalScraped result2 = 3"
  "errors result2 = [search_error [0x65, 0x6E]]"
  by (simp_all add: result2_def)

subsection \<open>Requests\<close>

lemma POST_ok_request:
  assumes "POST rt req = (Json_ok r, cs)"
  obtains body where "req = Body body"
    "destructure_desire body = Inr (Some (JStr (desire r)))" "desire r \<noteq> []"
  using assms
  by (auto simp: POST_def bad_request_def internal_error_def
      split: request.splits sum.splits if_splits option.splits json.splits)

lemma searchPromises_two:
  assumes "limitedQueries a = [q0, q1]"
  shows "searchPromises rt a = [search_branch rt 0 q0, search_branch rt 1 q1]"
  by (simp add: searchPromises_def assms)

subsection \<open>The scrape stage\<close>

lemma nth_scrapePromises:
  assumes "i < length (limitedUrls rt a)"
  shows "scrapePromises rt d a ! i = scrape_branch rt d i (limitedUrls rt a ! i)"
  using assms by (simp add: scrapePromises_def nth_enumerate_eq)

lemma length_scrapePromises: "length (scrapePromises rt d a) = length (limitedUrls rt a)"
  by (simp add: scrapePromises_def)

lemma branch_calls_subset:
  assumes "i < length (limitedUrls rt a)"
  shows "set (snd (scrapePromises rt d a ! i)) \<subseteq> set (scrape_calls rt d a)"
proof -
  from assms have "scrapePromises rt d a ! i \<in> set (scrapePromises rt d a)"
    by (simp add: length_scrapePromises)
  then show ?thesis
    by (auto simp: scrape_calls_def)
qed

lemma scrape_branch_long:
  assumes "scrape rt i u = Inr (Some c)" and "length c > 100"
  shows "snd (scrape_branch rt d i u) = [Scrape u, Extract c d]"
  using assms by (auto simp: scrape_branch_def split: sum.splits)

lemma scrape_branch_none:
  assumes "isl (scrape rt i u) \<or> scrape rt i u = Inr None
    \<or> (\<exists>c. scrape rt i u = Inr (Some c) \<and> length c \<le> 100)"
  shows "scrape_branch rt d i u = (None, [Scrape u])"
  using assms by (auto simp: scrape_branch_def isl_def split: sum.splits option.splits)

subsection \<open>Replacing the outcome of one scrape branch\<close>

lemma searchPromises_cong:
  assumes "search rt' = search rt"
  shows "searchPromises rt' a = searchPromises rt a"
  by (simp add: searchPromises_def search_branch_def assms)

lemma search_stage_cong:
  assumes "search rt' = search rt"
  shows "allSearchResults rt' a = allSearchResults rt a"
    and "search_errors rt' a = search_errors rt a"
    and "search_calls rt' a = search_calls rt a"
    and "limitedUrls rt' a = limitedUrls rt a"
  by (simp_all add: allSearchResults_def search_errors_def search_calls_def limitedUrls_def
      uniqueUrls_def searchPromises_cong [OF assms])

lemma scrape_branch_cong:
  assumes "scrape rt' j = scrape rt j" and "extractProduct rt' j = extractProduct rt j"
  shows "scrape_branch rt' d j u = scrape_branch rt d j u"
  by (simp add: scrape_branch_def assms split: sum.splits option.splits)

lemma scrape_branch_scrape_throws:
  assumes "scrape rt' i u = Inl e"
  shows "fst (scrape_branch rt' d i u) = None"
  by (simp add: scrape_branch_def assms)

lemma scrape_branch_extract_throws:
  assumes "\<forall>c. extractProduct rt' i c d = Inl e"
  shows "fst (scrape_branch rt' d i u) = None"
  using assms by (simp add: scrape_branch_def split: sum.splits option.splits)

lemma scrapedProducts_update:
  assumes lim: "limitedUrls rt' a = limitedUrls rt a"
    and other: "\<forall>j. j \<noteq> i \<longrightarrow> scrape rt' j = scrape rt j \<and> extractProduct rt' j = extractProduct rt j"
    and here: "\<forall>u. fst (scrape_branch rt' d i u) = None"
  shows "scrapedProducts rt' d a = (scrapedProducts rt d a)[i := None]"
proof (rule nth_equalityI)
  show "length (scrapedProducts rt' d a) = length ((scrapedProducts rt d a)[i := None])"
    by (simp add: length_scrapedProducts lim)
next
  fix j assume "j < length (scrapedProducts rt' d a)"
  then have j: "j < length (limitedUrls rt a)"
    by (simp add: length_scrapedProducts lim)
  have l: "scrapedProducts rt' d a ! j = fst (scrape_branch rt' d j (limitedUrls rt a ! j))"
    using j nth_scrapePromises [of j rt' a d]
    by (simp add: scrapedProducts_def length_scrapePromises lim)
  have r: "scrapedProducts rt d a ! j = fst (scrape_branch rt d j (limitedUrls rt a ! j))"
    using j nth_scrapePromises [of j rt a d]
    by (simp add: scrapedProducts_def length_scrapePromises)
  show "scrapedProducts rt' d a ! j = (scrapedProducts rt d a)[i := None] ! j"
  proof (cases "j = i")
    case True
    from l here have "scrapedProducts rt' d a ! j = None"
      by (simp add: True)
    moreover from j have "(scrapedProducts rt d a)[i := None] ! j = None"
      by (simp add: True length_scrapedProducts)
    ultimately show ?thesis by simp
  next
    case False
    from False other have "scrape rt' j = scrape rt j" "extractProduct rt' j = extractProduct rt j"
      by simp_all
    then have "scrape_branch rt' d j (limitedUrls rt a ! j) =
        scrape_branch rt d j (limitedUrls rt a ! j)"
      by (rule scrape_branch_cong)
    with False show ?thesis by (simp add: l r)
  qed
qed

subsection \<open>The order of the kept products\<close>

lemma first_slot_append_in:
  assumes "Some p \<in> set xs"
  shows "first_slot (xs @ ys) p = first_slot xs p" and "first_slot xs p < length xs"
proof -
  from assms show "first_slot (xs @ ys) p = first_slot xs p"
    by (simp add: first_slot_def takeWhile_append1)
  from assms show "first_slot xs p < length xs"
    unfolding first_slot_def by (induction xs) auto
qed

lemma first_slot_append_notin:
  assumes "Some p \<notin> set xs"
  shows "first_slot (xs @ Some p # ys) p = length xs"
proof -
  from assms have "takeWhile (\<lambda>s. s \<noteq> Some p) (xs @ Some p # ys) =
      xs @ takeWhile (\<lambda>s. s \<noteq> Some p) (Some p # ys)"
    by (intro takeWhile_append2) auto
  then show ?thesis by (simp add: first_slot_def)
qed

lemma isDuplicate_iff: "isDuplicate lc acc c \<longleftrightarrow> (\<exists>p \<in> set acc. same_product lc p c)"
  by (simp add: isDuplicate_def list_ex_iff)

lemma same_product_refl: "same_product lc p p"
  by (simp add: same_product_def)

lemma eligible_is_duplicate:
  assumes "Some c \<in> set slots" and "relevanceScore c \<ge> 5"
  shows "isDuplicate lc (filter_products lc [] slots) c"
proof -
  from assms(1) obtain j where j: "j < length slots" "slots ! j = Some c"
    by (auto simp: in_set_conv_nth)
  show ?thesis
  proof (cases "isDuplicate lc (filter_products lc [] (take j slots)) c")
    case True
    from filter_products_first_kept(2) [OF j assms(2) True] show ?thesis
      unfolding isDuplicate_iff by blast
  next
    case False
    from filter_products_first_kept(1) [OF j assms(2) False] show ?thesis
      unfolding isDuplicate_iff using same_product_refl by blast
  qed
qed

lemma filter_products_snoc:
  "filter_products lc [] (xs @ [s]) =
     (case s of
        None \<Rightarrow> filter_products lc [] xs
      | Some c \<Rightarrow>
          if relevanceScore c \<ge> 5 \<and> \<not> isDuplicate lc (filter_products lc [] xs) c
          then filter_products lc [] xs @ [c]
          else filter_products lc [] xs)"
  by (simp add: filter_products_append split: option.splits)

lemma kept_in_slots:
  assumes "p \<in> set (filter_products lc [] xs)"
  shows "Some p \<in> set xs"
  using filter_products_origin [OF assms] by simp

lemma kept_by_first_slot:
  "sorted_wrt (\<lambda>p q. first_slot slots p < first_slot slots q) (filter_products lc [] slots)"
proof (induction slots rule: rev_induct)
  case Nil
  show ?case by simp
next
  case (snoc s xs)
  let ?kept = "filter_products lc [] xs"
  have old: "sorted_wrt (\<lambda>p q. first_slot (xs @ [s]) p < first_slot (xs @ [s]) q) ?kept"
  proof (rule sorted_wrt_mono_rel [OF _ snoc.IH])
    fix p q assume "p \<in> set ?kept" "q \<in> set ?kept" "first_slot xs p < first_slot xs q"
    then show "first_slot (xs @ [s]) p < first_slot (xs @ [s]) q"
      by (simp add: first_slot_append_in(1) kept_in_slots)
  qed
  show ?case
  proof (cases "\<exists>c. s = Some c \<and> relevanceScore c \<ge> 5 \<and> \<not> isDuplicate lc ?kept c")
    case False
    then have "filter_products lc [] (xs @ [s]) = ?kept"
      by (auto simp: filter_products_snoc split: option.splits)
    with old show ?thesis by simp
  next
    case True
    then obtain c where c: "s = Some c" "relevanceScore c \<ge> 5" "\<not> isDuplicate lc ?kept c"
      by blast
    then have eq: "filter_products lc [] (xs @ [s]) = ?kept @ [c]"
      by (simp add: filter_products_snoc)
    from c(2,3) eligible_is_duplicate [of c xs lc] have "Some c \<notin> set xs" by blast
    then have last: "first_slot (xs @ [s]) c = length xs"
      unfolding c(1) by (rule first_slot_append_notin)
    have "first_slot (xs @ [s]) p < first_slot (xs @ [s]) c" if "p \<in> set ?kept" for p
      using first_slot_append_in(1) [OF kept_in_slots [OF that], of "[s]"]
        first_slot_append_in(2) [OF kept_in_slots [OF that]] last by simp
    with old show ?thesis
      by (simp add: eq sorted_wrt_append)
  qed
qed

lemma sorted_wrt_classes:
  assumes "\<forall>k. sorted_wrt R (filter (\<lambda>p. f p = k) ys)"
  shows "sorted_wrt (\<lambda>p q. f p = f q \<longrightarrow> R p q) ys"
  using assms
proof (induction ys)
  case Nil
  show ?case by simp
next
  case (Cons y ys)
  have tail: "\<forall>k. sorted_wrt R (filter (\<lambda>p. f p = k) ys)"
  proof
    fix k
    from Cons.prems have "sorted_wrt R (filter (\<lambda>p. f p = k) (y # ys))" by blast
    then show "sorted_wrt R (filter (\<lambda>p. f p = k) ys)"
      by (simp split: if_splits)
  qed
  have head: "R y q" if "q \<in> set ys" "f y = f q" for q
  proof -
    from Cons.prems have "sorted_wrt R (filter (\<lambda>p. f p = f y) (y # ys))" by blast
    with that show ?thesis by simp
  qed
  from Cons.IH [OF tail] head show ?case by simp
qed

lemma ties_keep_order:
  assumes "sorted_wrt R ps"
  shows "sorted_wrt (\<lambda>p q. relevanceScore p = relevanceScore q \<longrightarrow> R p q) (sort_products ps)"
proof (rule sorted_wrt_classes, rule allI)
  fix k
  from assms have "sorted_wrt R (filter (\<lambda>p. relevanceScore p = k) ps)"
    by (rule sorted_wrt_filter)
  then show "sorted_wrt R (filter (\<lambda>p. relevanceScore p = k) (sort_products ps))"
    by (simp only: stable_sort_products)
qed

lemma sorted_wrt_combine:
  assumes "sorted_wrt P xs" and "sorted_wrt Q xs" and "\<And>x y. P x y \<Longrightarrow> Q x y \<Longrightarrow> S x y"
  shows "sorted_wrt S xs"
  using assms by (induction xs) auto

lemma run1_first_slots:
  "first_slot [Some tea, Some pill, Some tea_upper, Some cup, Some nap] pill = 1"
  "first_slot [Some tea, Some pill, Some tea_upper, Some cup, Some nap] tea = 0"
  "first_slot [Some tea, Some pill, Some tea_upper, Some cup, Some nap] nap = 4"
  by (simp_all add: first_slot_def tea_def pill_def tea_upper_def cup_def nap_def mk_product_def)

subsection \<open>The fourth run\<close>

lemma run4_search: "search run4 = search run2"
  by (simp add: run4_def run2_def stub_runtime_def)

lemma run4_analysis: "analyzeDesire run4 focus = Inr two_queries"
  by (simp add: run4_def stub_runtime_sel)

lemma run4_lower: "toLowerCase run4 = ascii_lower"
  by (simp add: run4_def stub_runtime_sel)

lemma run4_urls: "limitedUrls run4 two_queries = [[0x41], [0x42], [0x43]]"
  by (simp only: search_stage_cong(4) [OF run4_search] run2_urls)

lemma run4_slots:
  "scrapePromises run4 focus two_queries =
     [(Some letter_x, [Scrape [0x41], Extract long_page focus]),
      (Some capital_x, [Scrape [0x42], Extract long_page focus]),
      (Some letter_y, [Scrape [0x43], Extract long_page focus])]"
proof -
  have "scrapePromises run4 focus two_queries =
    map (\<lambda>(i, url). scrape_branch run4 focus i url) (enumerate 0 [[0x41], [0x42], [0x43]])"
    by (simp only: scrapePromises_def run4_urls)
  then show ?thesis
    by (simp add: scrape_branch_def run4_def stub_runtime_sel answer_simps length_long_page)
qed

lemma run4_scrapedProducts:
  "scrapedProducts run4 focus two_queries = [Some letter_x, Some capital_x, Some letter_y]"
  by (simp add: scrapedProducts_def run4_slots)

lemma run4_kept:
  "filter_products ascii_lower [] [Some letter_x, Some capital_x, Some letter_y]
     = [letter_x, letter_y]"
  by (simp add: isDuplicate_def same_product_def ascii_lower_def letter_x_def capital_x_def
      letter_y_def mk_product_def)

lemma run4_products: "final_products run4 focus two_queries = [letter_y, letter_x]"
proof -
  have "final_products run4 focus two_queries = take 5 (sort_products [letter_x, letter_y])"
    by (simp only: final_products_def run4_scrapedProducts run4_lower run4_kept)
  also have "\<dots> = [letter_y, letter_x]"
    by (simp add: sort_products_def letter_x_def letter_y_def mk_product_def)
  finally show ?thesis .
qed

lemma run4_counts:
  "length (allSearchResults run4 two_queries) = 4"
  "length (limitedUrls run4 two_queries) = 3"
  "search_errors run4 two_queries = [search_error [0x65, 0x6E]]"
  "search_calls run4 two_queries =
     [Search (query query_en) (language query_en) 3, Search (query query_ja) (language query_ja) 3]"
  by (simp_all only: search_stage_cong [OF run4_search] run2_counts)

lemma run4_scrape_calls:
  "scrape_calls run4 focus two_queries =
     [Scrape [0x41], Extract long_page focus, Scrape [0x42], Extract long_page focus,
      Scrape [0x43], Extract long_page focus]"
  by (simp add: scrape_calls_def run4_slots)

lemma run4_POST: "POST run4 focus_request = (Json_ok result4, calls4)"
  unfolding focus_request_def
  by (simp only: POST_valid [OF focus_request_valid] run4_analysis sum.case run4_products
      run4_counts run4_scrape_calls result4_def calls4_def append.simps)

lemma result4_sel:
  "desire result4 = focus" "products result4 = [letter_y, letter_x]"
  by (simp_all add: result4_def)

section \<open>The claims\<close>

text \<open>
  Claim C6. Every product of a returned result has a \<open>relevanceScore\<close> of at least 5:
  an extracted product with a lower score is dropped by the loop of lines 87-100 and
  does not come back.
\<close>

theorem products_score_at_least_5:
  assumes "POST rt req = (Json_ok r, cs)"
  shows "\<forall>p \<in> set (products r). relevanceScore p \<ge> 5"
proof
  fix p assume p: "p \<in> set (products r)"
  from assms obtain d a where
    r: "r = \<lparr>desire = d, products = final_products rt d a,
          totalSearched = length (allSearchResults rt a),
          totalScraped = length (limitedUrls rt a), errors = search_errors rt a\<rparr>"
    by (rule POST_ok)
  from p r have "p \<in> set (filter_products (toLowerCase rt) [] (scrapedProducts rt d a))"
    by (simp add: final_products_eq set_sort_products)
  from filter_products_origin [OF this] show "relevanceScore p \<ge> 5" by simp
qed

theorem products_score_at_least_5_witness:
  "POST run1 focus_request = (Json_ok result1, calls1)
   \<and> Some cup \<in> set (scrapedProducts run1 focus two_queries)
   \<and> relevanceScore cup = 4
   \<and> products result1 = [pill, tea, nap]
   \<and> relevanceScore pill \<ge> 5 \<and> relevanceScore tea \<ge> 5 \<and> relevanceScore nap \<ge> 5"
proof -
  have slots: "Some cup \<in> set (scrapedProducts run1 focus two_queries)"
    by (simp add: scrapedProducts_def run1_slots)
  have cup: "relevanceScore cup = 4"
    by (simp add: cup_def mk_product_def)
  have "\<forall>p \<in> set [pill, tea, nap]. relevanceScore p \<ge> 5"
    using products_score_at_least_5 [OF run1_POST] by (simp only: result1_sel)
  then show ?thesis
    using run1_POST slots cup by (simp add: result1_sel)
qed

text \<open>
  Claim C10. No stage bounds \<open>relevanceScore\<close> from above: an extracted product
  with a score of at least 5 that is not a duplicate of a product kept before it is in
  the result, whatever its score; the run below returns a product of score 11.
\<close>

theorem no_upper_bound_on_score:
  assumes "POST rt req = (Json_ok r, cs)" and "analyzeDesire rt (desire r) = Inr a"
    and "j < length (scrapedProducts rt (desire r) a)"
    and "scrapedProducts rt (desire r) a ! j = Some c"
    and "relevanceScore c \<ge> 5"
    and "\<not> isDuplicate (toLowerCase rt)
           (filter_products (toLowerCase rt) [] (take j (scrapedProducts rt (desire r) a))) c"
  shows "c \<in> set (products r)"
proof -
  from assms(1) obtain d a' where d: "d = desire r" and a': "analyzeDesire rt d = Inr a'"
    and r: "r = \<lparr>desire = d, products = final_products rt d a',
          totalSearched = length (allSearchResults rt a'),
          totalScraped = length (limitedUrls rt a'), errors = search_errors rt a'\<rparr>"
    by (rule POST_ok)
  from a' assms(2) d have "a' = a" by simp
  with r have "products r = final_products rt d a" by simp
  then have "products r = final_products rt (desire r) a" by (simp only: d)
  then have "set (products r) =
      set (filter_products (toLowerCase rt) [] (scrapedProducts rt (desire r) a))"
    by (simp only: final_products_eq set_sort_products)
  with filter_products_first_kept(1) [OF assms(3,4,5,6)] show ?thesis by simp
qed

theorem no_upper_bound_on_score_witness:
  "POST run1 focus_request = (Json_ok result1, calls1)
   \<and> analyzeDesire run1 (desire result1) = Inr two_queries
   \<and> scrapedProducts run1 (desire result1) two_queries ! 1 = Some pill
   \<and> relevanceScore pill = 11
   \<and> \<not> isDuplicate (toLowerCase run1)
        (filter_products (toLowerCase run1) []
           (take 1 (scrapedProducts run1 (desire result1) two_queries))) pill
   \<and> pill \<in> set (products result1)"
proof -
  have an: "analyzeDesire run1 (desire result1) = Inr two_queries"
    by (simp only: result1_sel run1_analysis)
  have len: "1 < length (scrapedProducts run1 (desire result1) two_queries)"
    by (simp add: result1_sel run1_scrapedProducts)
  have slot: "scrapedProducts run1 (desire result1) two_queries ! 1 = Some pill"
    by (simp add: result1_sel run1_scrapedProducts)
  have score: "relevanceScore pill = 11"
    by (simp add: pill_def mk_product_def)
  then have ge: "relevanceScore pill \<ge> 5" by simp
  have nodup: "\<not> isDuplicate (toLowerCase run1)
        (filter_products (toLowerCase run1) []
           (take 1 (scrapedProducts run1 (desire result1) two_queries))) pill"
    by (simp add: result1_sel run1_scrapedProducts run1_lower isDuplicate_def same_product_def
        ascii_lower_def tea_def pill_def mk_product_def)
  from no_upper_bound_on_score [OF run1_POST an len slot ge nodup] run1_POST an slot score nodup
  show ?thesis by blast
qed

text \<open>
  Claim C3. The candidates are the links of the hits with only the first occurrence of
  each distinct link kept, in arrival order, cut to the first five; these are the URLs
  the handler scrapes, in that order. Hits for the locations \<open>A, B, A, C\<close> give the
  candidates \<open>A, B, C\<close>.
\<close>

theorem merger_keeps_first_occurrences:
  assumes "POST rt req = (Json_ok r, cs)" and "analyzeDesire rt (desire r) = Inr a"
  shows "limitedUrls rt a = take 5 (first_occurrences (map link (allSearchResults rt a)))
    \<and> filter is_scrape cs = map Scrape (limitedUrls rt a)
    \<and> (\<forall>A B C. map link (allSearchResults rt a) = [A, B, A, C] \<and> A \<noteq> B \<and> A \<noteq> C \<and> B \<noteq> C
          \<longrightarrow> limitedUrls rt a = [A, B, C])"
proof -
  from assms(1) obtain d a' where d: "d = desire r" and a': "analyzeDesire rt d = Inr a'"
    and cs: "cs = Analyze d # search_calls rt a' @ scrape_calls rt d a'"
    by (rule POST_ok)
  from a' assms(2) d have "a' = a" by simp
  with cs have 2: "filter is_scrape cs = map Scrape (limitedUrls rt a)"
    by (simp add: filter_scrape_search_calls filter_scrape_scrape_calls)
  have 3: "\<forall>A B C. map link (allSearchResults rt a) = [A, B, A, C] \<and> A \<noteq> B \<and> A \<noteq> C \<and> B \<noteq> C
          \<longrightarrow> limitedUrls rt a = [A, B, C]"
    by (simp add: limitedUrls_def uniqueUrls_def)
  show ?thesis
    using limitedUrls_first_occurrences [of rt a] 2 3 by (intro conjI)
qed

theorem merger_keeps_first_occurrences_witness:
  "POST run2 focus_request = (Json_ok result2, calls2)
   \<and> analyzeDesire run2 (desire result2) = Inr two_queries
   \<and> map link (allSearchResults run2 two_queries) = [[0x41], [0x42], [0x41], [0x43]]
   \<and> limitedUrls run2 two_queries = [[0x41], [0x42], [0x43]]
   \<and> filter is_scrape calls2 = [Scrape [0x41], Scrape [0x42], Scrape [0x43]]"
proof -
  have an: "analyzeDesire run2 (desire result2) = Inr two_queries"
    by (simp only: result2_sel run2_analysis)
  note inst = merger_keeps_first_occurrences [OF run2_POST an]
  have urls: "limitedUrls run2 two_queries = [[0x41], [0x42], [0x43]]"
    by (rule inst [THEN conjunct2, THEN conjunct2, rule_format]) (simp add: run2_hits)
  from inst have "filter is_scrape calls2 = map Scrape (limitedUrls run2 two_queries)"
    by (elim conjE)
  then have "filter is_scrape calls2 = [Scrape [0x41], Scrape [0x42], Scrape [0x43]]"
    by (simp only: urls list.map)
  with run2_POST an run2_hits urls show ?thesis
    by (intro conjI)
qed

text \<open>
  Claim C5. When the desire is valid and \<^verbatim>\<open>analyzeDesire\<close> throws, the handler
  answers with the fixed internal-error message and status 500, and the only external
  call it has made is the analysis: no search, no scrape, no extraction.
\<close>

theorem analysis_failure_is_fatal:
  assumes "destructure_desire body = Inr (Some (JStr d))" and "d \<noteq> []"
    and "analyzeDesire rt d = Inl e"
  shows "POST rt (Body body) =
    (Json_error [0x5185, 0x90E8, 0x30A8, 0x30E9, 0x30FC, 0x304C, 0x767A, 0x751F, 0x3057,
       0x307E, 0x3057, 0x305F] 500, [Analyze d])"
  using assms by (simp add: POST_valid internal_error_def)

theorem analysis_failure_is_fatal_witness:
  "destructure_desire (JObj [(key_desire, JStr focus)]) = Inr (Some (JStr focus))
   \<and> focus \<noteq> []
   \<and> analyzeDesire run3 focus = Inl (ServiceError [])
   \<and> search run3 0 (query query_en) (language query_en) 3 = search run1 0 (query query_en) (language query_en) 3
   \<and> POST run3 focus_request =
    (Json_error [0x5185, 0x90E8, 0x30A8, 0x30E9, 0x30FC, 0x304C, 0x767A, 0x751F, 0x3057,
       0x307E, 0x3057, 0x305F] 500, [Analyze focus])"
proof -
  have an: "analyzeDesire run3 focus = Inl (ServiceError [])"
    by (simp add: run3_def)
  have same: "search run3 0 (query query_en) (language query_en) 3 =
      search run1 0 (query query_en) (language query_en) 3"
    by (simp add: run3_def)
  from analysis_failure_is_fatal [OF focus_request_valid an] focus_request_valid an same
  show ?thesis
    unfolding focus_request_def by (intro conjI)
qed

text \<open>
  Claim C2 as stated fails at 100 code units. In the second run the scrape of the first
  candidate succeeds with a page of exactly 100 code units, which is not shorter than
  100, and \<^verbatim>\<open>extractProduct\<close> is not called on it: line 72 asks for
  \<^verbatim>\<open>content.length > 100\<close>.
\<close>

theorem extraction_at_100_counterexample:
  "POST run2 focus_request = (Json_ok result2, calls2)
   \<and> limitedUrls run2 two_queries ! 0 = [0x41]
   \<and> scrape run2 0 [0x41] = Inr (Some page_100)
   \<and> \<not> length page_100 < 100
   \<and> Extract page_100 focus \<notin> set calls2
   \<and> scrapePromises run2 focus two_queries ! 0 = (None, [Scrape [0x41]])"
proof -
  have 1: "limitedUrls run2 two_queries ! 0 = [0x41]"
    by (simp add: run2_urls)
  have 2: "scrape run2 0 [0x41] = Inr (Some page_100)"
    by (simp add: run2_def stub_runtime_sel answer_simps)
  have 3: "\<not> length page_100 < 100"
    by (simp add: length_page_100)
  have "page_100 \<noteq> long_page"
    by (simp add: page_100_def long_page_def)
  then have 4: "Extract page_100 focus \<notin> set calls2"
    by (simp add: calls2_def)
  have 5: "scrapePromises run2 focus two_queries ! 0 = (None, [Scrape [0x41]])"
    by (simp add: run2_slots)
  from run2_POST 1 2 3 4 5 show ?thesis by (intro conjI)
qed

text \<open>
  Claim C2, as amended. For a candidate whose scrape succeeds with content of more than
  100 code units, \<^verbatim>\<open>extractProduct\<close> is called on that content; when the scrape
  throws, gives nothing, or gives content of at most 100 code units, the branch yields no
  product and its only call is the scrape. The entries of \<open>errors\<close> are those of the
  searches that threw, and nothing else.
\<close>

theorem extraction_needs_more_than_100:
  assumes "POST rt req = (Json_ok r, cs)" and "analyzeDesire rt (desire r) = Inr a"
    and "i < length (limitedUrls rt a)"
  shows "(\<forall>c. scrape rt i (limitedUrls rt a ! i) = Inr (Some c) \<and> length c > 100 \<longrightarrow>
            Extract c (desire r) \<in> set cs
            \<and> snd (scrapePromises rt (desire r) a ! i) =
                [Scrape (limitedUrls rt a ! i), Extract c (desire r)])
    \<and> (isl (scrape rt i (limitedUrls rt a ! i))
        \<or> scrape rt i (limitedUrls rt a ! i) = Inr None
        \<or> (\<exists>c. scrape rt i (limitedUrls rt a ! i) = Inr (Some c) \<and> length c \<le> 100) \<longrightarrow>
          scrapePromises rt (desire r) a ! i = (None, [Scrape (limitedUrls rt a ! i)]))
    \<and> errors r =
        map (\<lambda>(i, q). search_error (language q))
          (filter (search_fails rt) (enumerate 0 (limitedQueries a)))"
proof -
  from assms(1) obtain d a' where d: "d = desire r" and a': "analyzeDesire rt d = Inr a'"
    and r: "r = \<lparr>desire = d, products = final_products rt d a',
          totalSearched = length (allSearchResults rt a'),
          totalScraped = length (limitedUrls rt a'), errors = search_errors rt a'\<rparr>"
    and cs: "cs = Analyze d # search_calls rt a' @ scrape_calls rt d a'"
    by (rule POST_ok)
  from a' assms(2) d have a: "a' = a" by simp
  let ?u = "limitedUrls rt a ! i"
  have nth: "scrapePromises rt d a ! i = scrape_branch rt d i ?u"
    by (rule nth_scrapePromises [OF assms(3)])
  have 1: "Extract c d \<in> set cs \<and> snd (scrapePromises rt d a ! i) = [Scrape ?u, Extract c d]"
    if "scrape rt i ?u = Inr (Some c) \<and> length c > 100" for c
  proof -
    from that have calls: "snd (scrapePromises rt d a ! i) = [Scrape ?u, Extract c d]"
      by (simp only: nth scrape_branch_long)
    then have "Extract c d \<in> set (snd (scrapePromises rt d a ! i))" by simp
    with branch_calls_subset [OF assms(3), of d] have "Extract c d \<in> set (scrape_calls rt d a)"
      by blast
    with cs a calls show ?thesis by simp
  qed
  have 2: "scrapePromises rt d a ! i = (None, [Scrape ?u])"
    if "isl (scrape rt i ?u) \<or> scrape rt i ?u = Inr None
        \<or> (\<exists>c. scrape rt i ?u = Inr (Some c) \<and> length c \<le> 100)"
    using that by (simp only: nth scrape_branch_none)
  from r a have 3: "errors r =
        map (\<lambda>(i, q). search_error (language q))
          (filter (search_fails rt) (enumerate 0 (limitedQueries a)))"
    by (simp add: search_errors_eq)
  from 1 2 3 show ?thesis unfolding d by blast
qed

theorem extraction_needs_more_than_100_witness:
  "POST run2 focus_request = (Json_ok result2, calls2)
   \<and> analyzeDesire run2 (desire result2) = Inr two_queries
   \<and> 1 < length (limitedUrls run2 two_queries)
   \<and> scrape run2 1 (limitedUrls run2 two_queries ! 1) = Inr (Some long_page)
   \<and> length long_page > 100
   \<and> Extract long_page focus \<in> set calls2
   \<and> snd (scrapePromises run2 focus two_queries ! 1) = [Scrape [0x42], Extract long_page focus]
   \<and> errors result2 =
        map (\<lambda>(i, q). search_error (language q))
          (filter (search_fails run2) (enumerate 0 (limitedQueries two_queries)))"
proof -
  have an: "analyzeDesire run2 (desire result2) = Inr two_queries"
    by (simp only: result2_sel run2_analysis)
  have len: "1 < length (limitedUrls run2 two_queries)"
    by (simp add: run2_urls)
  have sc: "scrape run2 1 (limitedUrls run2 two_queries ! 1) = Inr (Some long_page)"
    by (simp add: run2_def stub_runtime_sel answer_def)
  have long: "length long_page > 100"
    by (simp add: length_long_page)
  note inst = extraction_needs_more_than_100 [OF run2_POST an len]
  have "Extract long_page (desire result2) \<in> set calls2
      \<and> snd (scrapePromises run2 (desire result2) two_queries ! 1) =
          [Scrape (limitedUrls run2 two_queries ! 1), Extract long_page (desire result2)]"
    by (rule inst [THEN conjunct1, rule_format]) (simp only: sc long simp_thms)
  then have 1: "Extract long_page focus \<in> set calls2
      \<and> snd (scrapePromises run2 focus two_queries ! 1) = [Scrape [0x42], Extract long_page focus]"
    by (simp add: result2_sel run2_urls)
  from inst have 2: "errors result2 =
        map (\<lambda>(i, q). search_error (language q))
          (filter (search_fails run2) (enumerate 0 (limitedQueries two_queries)))"
    by (elim conjE)
  from run2_POST an len sc long 1 2 show ?thesis
    by (intro conjI) (elim conjE, assumption)+
qed

text \<open>
  Claim C8. An exception in the scrape or in the extraction of one candidate stays in
  its branch. Let the scrape, or the extraction, of branch \<open>i\<close> throw instead of
  answering as before: the handler still returns a result; the slot of branch \<open>i\<close> is
  empty and every other slot is as before, so the products are those the loop, the sort
  and the cut make of the other branches; \<open>errors\<close> and \<open>totalSearched\<close> are as
  before; and \<open>totalScraped\<close> is still the number of candidates, which is the number
  of scrape calls made.
\<close>

theorem scrape_failure_is_isolated:
  assumes "POST rt req = (Json_ok r, cs)" and "analyzeDesire rt (desire r) = Inr a"
    and "i < length (limitedUrls rt a)"
    and "rt' = rt\<lparr>scrape := (scrape rt)(i := (\<lambda>u. Inl e))\<rparr>
       \<or> rt' = rt\<lparr>extractProduct := (extractProduct rt)(i := (\<lambda>c d. Inl e))\<rparr>"
  shows "\<exists>r' cs'. POST rt' req = (Json_ok r', cs')
     \<and> scrapedProducts rt' (desire r) a = (scrapedProducts rt (desire r) a)[i := None]
     \<and> products r' =
         take 5 (sort_products (filter_products (toLowerCase rt) []
           ((scrapedProducts rt (desire r) a)[i := None])))
     \<and> errors r' = errors r
     \<and> totalSearched r' = totalSearched r
     \<and> totalScraped r = length (limitedUrls rt a)
     \<and> totalScraped r' = length (limitedUrls rt a)
     \<and> length (filter is_scrape cs') = length (limitedUrls rt a)"
proof -
  from assms(1) obtain d a' where d: "d = desire r" and a': "analyzeDesire rt d = Inr a'"
    and r: "r = \<lparr>desire = d, products = final_products rt d a',
          totalSearched = length (allSearchResults rt a'),
          totalScraped = length (limitedUrls rt a'), errors = search_errors rt a'\<rparr>"
    by (rule POST_ok)
  from a' assms(2) d have a: "a' = a" by simp
  from assms(1) obtain body where req: "req = Body body"
    and body: "destructure_desire body = Inr (Some (JStr d))" "d \<noteq> []"
    unfolding d by (rule POST_ok_request)
  from assms(4) have same: "search rt' = search rt" "analyzeDesire rt' = analyzeDesire rt"
    "toLowerCase rt' = toLowerCase rt"
    by auto
  from assms(4) have other:
    "\<forall>j. j \<noteq> i \<longrightarrow> scrape rt' j = scrape rt j \<and> extractProduct rt' j = extractProduct rt j"
    by auto
  from assms(4) have here: "\<forall>u. fst (scrape_branch rt' d i u) = None"
  proof
    assume "rt' = rt\<lparr>scrape := (scrape rt)(i := (\<lambda>u. Inl e))\<rparr>"
    then have "scrape rt' i u = Inl e" for u by simp
    then show ?thesis by (simp add: scrape_branch_scrape_throws)
  next
    assume "rt' = rt\<lparr>extractProduct := (extractProduct rt)(i := (\<lambda>c d. Inl e))\<rparr>"
    then have "\<forall>c. extractProduct rt' i c d = Inl e" by simp
    then show ?thesis by (simp add: scrape_branch_extract_throws)
  qed
  note stage = search_stage_cong [OF same(1)]
  have slots: "scrapedProducts rt' d a = (scrapedProducts rt d a)[i := None]"
    by (rule scrapedProducts_update [OF stage(4) other here])
  let ?r' = "\<lparr>desire = d, products = final_products rt' d a,
          totalSearched = length (allSearchResults rt' a),
          totalScraped = length (limitedUrls rt' a), errors = search_errors rt' a\<rparr>"
  let ?cs' = "Analyze d # search_calls rt' a @ scrape_calls rt' d a"
  have post: "POST rt' req = (Json_ok ?r', ?cs')"
    unfolding req using a' a by (simp add: POST_valid [OF body] same(2))
  have 1: "products ?r' =
         take 5 (sort_products (filter_products (toLowerCase rt) []
           ((scrapedProducts rt d a)[i := None])))"
    by (simp add: final_products_def slots same(3))
  have 2: "errors ?r' = errors r" "totalSearched ?r' = totalSearched r"
    "totalScraped r = length (limitedUrls rt a)" "totalScraped ?r' = length (limitedUrls rt a)"
    using r a by (simp_all add: stage)
  have "filter is_scrape ?cs' = map Scrape (limitedUrls rt a)"
    by (simp add: filter_scrape_search_calls filter_scrape_scrape_calls stage(4))
  then have 3: "length (filter is_scrape ?cs') = length (limitedUrls rt a)"
    by simp
  have "\<exists>r' cs'. POST rt' req = (Json_ok r', cs')
     \<and> scrapedProducts rt' d a = (scrapedProducts rt d a)[i := None]
     \<and> products r' =
         take 5 (sort_products (filter_products (toLowerCase rt) []
           ((scrapedProducts rt d a)[i := None])))
     \<and> errors r' = errors r
     \<and> totalSearched r' = totalSearched r
     \<and> totalScraped r = length (limitedUrls rt a)
     \<and> totalScraped r' = length (limitedUrls rt a)
     \<and> length (filter is_scrape cs') = length (limitedUrls rt a)"
    by (intro exI [of _ ?r'] exI [of _ ?cs'] conjI) (rule post slots 1 2 3)+
  then show ?thesis by (simp only: d)
qed

theorem scrape_failure_is_isolated_witness:
  "POST run2 focus_request = (Json_ok result2, calls2)
   \<and> analyzeDesire run2 (desire result2) = Inr two_queries
   \<and> 1 < length (limitedUrls run2 two_queries)
   \<and> products result2 = [chai]
   \<and> (\<exists>r' cs'.
        POST (run2\<lparr>scrape := (scrape run2)(1 := (\<lambda>u. Inl (ServiceError [])))\<rparr>) focus_request
          = (Json_ok r', cs')
        \<and> products r' = [masala]
        \<and> errors r' = [search_error [0x65, 0x6E]]
        \<and> totalSearched r' = 4
        \<and> totalScraped r' = 3
        \<and> length (filter is_scrape cs') = 3)"
proof -
  let ?rt' = "run2\<lparr>scrape := (scrape run2)(1 := (\<lambda>u. Inl (ServiceError [])))\<rparr>"
  have an: "analyzeDesire run2 (desire result2) = Inr two_queries"
    by (simp only: result2_sel run2_analysis)
  have len: "1 < length (limitedUrls run2 two_queries)"
    by (simp add: run2_urls)
  have alt: "?rt' = run2\<lparr>scrape := (scrape run2)(1 := (\<lambda>u. Inl (ServiceError [])))\<rparr>
      \<or> ?rt' = run2\<lparr>extractProduct :=
            (extractProduct run2)(1 := (\<lambda>c d. Inl (ServiceError [])))\<rparr>"
    by (rule disjI1) (rule refl)
  have kept: "filter_products ascii_lower [] [None, None, Some masala] = [masala]"
    by (simp add: isDuplicate_def masala_def mk_product_def)
  have slots: "(scrapedProducts run2 focus two_queries)[1 := None] = [None, None, Some masala]"
    by (simp add: run2_scrapedProducts)
  have final: "take 5 (sort_products (filter_products (toLowerCase run2) []
      ((scrapedProducts run2 (desire result2) two_queries)[1 := None]))) = [masala]"
    by (simp only: result2_sel slots run2_lower kept) (simp add: sort_products_def)
  from scrape_failure_is_isolated [OF run2_POST an len alt]
  obtain r' cs' where post: "POST ?rt' focus_request = (Json_ok r', cs')"
    and ps: "products r' =
         take 5 (sort_products (filter_products (toLowerCase run2) []
           ((scrapedProducts run2 (desire result2) two_queries)[1 := None])))"
    and rest: "errors r' = errors result2" "totalSearched r' = totalSearched result2"
      "totalScraped r' = length (limitedUrls run2 two_queries)"
      "length (filter is_scrape cs') = length (limitedUrls run2 two_queries)"
    by blast
  from ps have ps': "products r' = [masala]"
    by (simp only: final)
  from rest have rest': "errors r' = [search_error [0x65, 0x6E]]" "totalSearched r' = 4"
    "totalScraped r' = 3" "length (filter is_scrape cs') = 3"
    by (simp_all add: result2_sel run2_urls)
  from post ps' rest' have "\<exists>r' cs'. POST ?rt' focus_request = (Json_ok r', cs')
        \<and> products r' = [masala]
        \<and> errors r' = [search_error [0x65, 0x6E]]
        \<and> totalSearched r' = 4
        \<and> totalScraped r' = 3
        \<and> length (filter is_scrape cs') = 3"
    by (intro exI [of _ r'] exI [of _ cs'] conjI)
  with run2_POST an len result2_sel(2) show ?thesis
    by (intro conjI)
qed

text \<open>
  Claim C1. Whatever the request and whatever the clients answer, when the handler
  returns a result, its \<open>products\<close> are sorted by \<open>relevanceScore\<close>, highest first,
  and there are at most five of them. Products of equal score keep the order in which
  they were first encountered: of two products in the result, the earlier one has the
  higher score, or the same score and an earlier first slot in candidate order. (For
  every score, the products of that score also form a subsequence of the extracted
  products in candidate order.)
\<close>

theorem products_sorted_stable_bounded:
  assumes "POST rt req = (Json_ok r, cs)" and "analyzeDesire rt (desire r) = Inr a"
  shows "sorted_wrt (\<lambda>p q. relevanceScore p \<ge> relevanceScore q) (products r)
    \<and> length (products r) \<le> 5
    \<and> (\<forall>k. subseq (filter (\<lambda>p. relevanceScore p = k) (products r))
             (extracted (scrapedProducts rt (desire r) a)))
    \<and> sorted_wrt
         (\<lambda>p q. relevanceScore q < relevanceScore p
            \<or> (relevanceScore p = relevanceScore q
                \<and> first_slot (scrapedProducts rt (desire r) a) p
                    < first_slot (scrapedProducts rt (desire r) a) q))
         (products r)"
proof -
  from assms(1) obtain d a' where d: "d = desire r" and a': "analyzeDesire rt d = Inr a'"
    and r: "r = \<lparr>desire = d, products = final_products rt d a',
          totalSearched = length (allSearchResults rt a'),
          totalScraped = length (limitedUrls rt a'), errors = search_errors rt a'\<rparr>"
    by (rule POST_ok)
  from a' assms(2) d have "a' = a" by simp
  with r have ps: "products r = final_products rt d a" by simp
  let ?slots = "scrapedProducts rt d a"
  let ?kept = "filter_products (toLowerCase rt) [] ?slots"
  have eq: "products r = sort_products ?kept"
    by (simp add: ps final_products_eq)
  have 1: "sorted_wrt (\<lambda>p q. relevanceScore p \<ge> relevanceScore q) (products r)"
    by (simp only: eq sorted_sort_products)
  have 2: "length (products r) \<le> 5"
    by (simp add: ps final_products_def)
  have sub: "subseq ?kept (extracted ?slots)"
    using filter_products_extends [of "toLowerCase rt" "[]" ?slots] by auto
  have 3: "subseq (filter (\<lambda>p. relevanceScore p = k) (products r)) (extracted ?slots)" for k
  proof -
    have "filter (\<lambda>p. relevanceScore p = k) (products r) = filter (\<lambda>p. relevanceScore p = k) ?kept"
      by (simp only: eq stable_sort_products)
    moreover have "subseq (filter (\<lambda>p. relevanceScore p = k) ?kept) ?kept"
      by simp
    ultimately show ?thesis
      using sub by (metis subseq_order.order_trans)
  qed
  have ties: "sorted_wrt (\<lambda>p q. relevanceScore p = relevanceScore q \<longrightarrow>
      first_slot ?slots p < first_slot ?slots q) (products r)"
    unfolding eq by (rule ties_keep_order) (rule kept_by_first_slot)
  have 4: "sorted_wrt
         (\<lambda>p q. relevanceScore q < relevanceScore p
            \<or> (relevanceScore p = relevanceScore q
                \<and> first_slot ?slots p < first_slot ?slots q))
         (products r)"
    by (rule sorted_wrt_combine [OF 1 ties]) auto
  from 1 2 3 4 show ?thesis unfolding d by blast
qed

theorem products_sorted_stable_bounded_witness:
  "POST run1 focus_request = (Json_ok result1, calls1)
   \<and> analyzeDesire run1 (desire result1) = Inr two_queries
   \<and> scrapedProducts run1 (desire result1) two_queries =
       [Some tea, Some pill, Some tea_upper, Some cup, Some nap]
   \<and> relevanceScore tea = 7 \<and> relevanceScore nap = 7
   \<and> first_slot [Some tea, Some pill, Some tea_upper, Some cup, Some nap] tea = 0
   \<and> first_slot [Some tea, Some pill, Some tea_upper, Some cup, Some nap] nap = 4
   \<and> sorted_wrt (\<lambda>p q. relevanceScore p \<ge> relevanceScore q) [pill, tea, nap]
   \<and> length [pill, tea, nap] \<le> 5
   \<and> (\<forall>k. subseq (filter (\<lambda>p. relevanceScore p = k) [pill, tea, nap])
            (extracted [Some tea, Some pill, Some tea_upper, Some cup, Some nap]))
   \<and> sorted_wrt
         (\<lambda>p q. relevanceScore q < relevanceScore p
            \<or> (relevanceScore p = relevanceScore q
                \<and> first_slot [Some tea, Some pill, Some tea_upper, Some cup, Some nap] p
                    < first_slot [Some tea, Some pill, Some tea_upper, Some cup, Some nap] q))
         [pill, tea, nap]"
proof -
  have an: "analyzeDesire run1 (desire result1) = Inr two_queries"
    by (simp only: result1_sel run1_analysis)
  have slots: "scrapedProducts run1 (desire result1) two_queries =
      [Some tea, Some pill, Some tea_upper, Some cup, Some nap]"
    by (simp add: result1_sel scrapedProducts_def run1_slots)
  have scores: "relevanceScore tea = 7" "relevanceScore nap = 7"
    by (simp_all add: tea_def nap_def mk_product_def)
  show ?thesis
    using products_sorted_stable_bounded [OF run1_POST an] run1_POST an slots scores
      run1_first_slots(2,3)
    by (simp only: result1_sel(2) slots simp_thms)
qed

text \<open>
  Claim C7 as stated fails on a chain of duplicates. In the fourth run \<^verbatim>\<open>X\<close> and
  \<^verbatim>\<open>y\<close> have the same official URL, and \<^verbatim>\<open>X\<close> arrives first; \<^verbatim>\<open>X\<close> is
  skipped, because its name matches that of \<^verbatim>\<open>x\<close>, which is already kept, and
  \<^verbatim>\<open>y\<close>, which matches nothing kept, stays: of the two duplicates the later one is
  in the result and the first is not.
\<close>

theorem first_duplicate_skipped_counterexample:
  "POST run4 focus_request = (Json_ok result4, calls4)
   \<and> scrapedProducts run4 focus two_queries = [Some letter_x, Some capital_x, Some letter_y]
   \<and> relevanceScore capital_x = 9 \<and> relevanceScore letter_y = 8
   \<and> officialUrl capital_x = Some [0x75, 0x32] \<and> officialUrl letter_y = Some [0x75, 0x32]
   \<and> same_product (toLowerCase run4) capital_x letter_y
   \<and> products result4 = [letter_y, letter_x]
   \<and> capital_x \<notin> set (products result4)
   \<and> letter_y \<in> set (products result4)"
proof -
  have 1: "relevanceScore capital_x = 9" "relevanceScore letter_y = 8"
    "officialUrl capital_x = Some [0x75, 0x32]" "officialUrl letter_y = Some [0x75, 0x32]"
    by (simp_all add: capital_x_def letter_y_def mk_product_def)
  have 2: "same_product (toLowerCase run4) capital_x letter_y"
    by (simp add: same_product_def 1)
  have 3: "capital_x \<notin> set (products result4)"
    by (simp add: result4_sel capital_x_def letter_x_def letter_y_def mk_product_def)
  have 4: "letter_y \<in> set (products result4)"
    by (simp add: result4_sel)
  from run4_POST run4_scrapedProducts 1 2 result4_sel(2) 3 4 show ?thesis
    by (intro conjI)
qed

text \<open>
  Claim C7, as amended. In a returned result no two products have the same name after
  \<^verbatim>\<open>toLowerCase\<close>, and no two have the same \<open>officialUrl\<close> when it is present
  and not empty. A product is compared with the products kept before it, not with
  every earlier product: every extracted product with a score of at least 5 is in the
  result, or is a duplicate of a product of the result that was extracted for an earlier
  candidate.
\<close>

theorem products_no_duplicates:
  assumes "POST rt req = (Json_ok r, cs)" and "analyzeDesire rt (desire r) = Inr a"
  shows "distinct (map (\<lambda>p. toLowerCase rt (name p)) (products r))
    \<and> distinct (filter (\<lambda>u. u \<noteq> None \<and> u \<noteq> Some []) (map officialUrl (products r)))
    \<and> (\<forall>j c. j < length (scrapedProducts rt (desire r) a)
          \<and> scrapedProducts rt (desire r) a ! j = Some c \<and> relevanceScore c \<ge> 5 \<longrightarrow>
          c \<in> set (products r) \<or>
          (\<exists>i<j. \<exists>p \<in> set (products r). scrapedProducts rt (desire r) a ! i = Some p
             \<and> same_product (toLowerCase rt) p c))"
proof -
  from assms(1) obtain d a' where d: "d = desire r" and a': "analyzeDesire rt d = Inr a'"
    and r: "r = \<lparr>desire = d, products = final_products rt d a',
          totalSearched = length (allSearchResults rt a'),
          totalScraped = length (limitedUrls rt a'), errors = search_errors rt a'\<rparr>"
    by (rule POST_ok)
  from a' assms(2) d have "a' = a" by simp
  with r have ps: "products r = final_products rt d a" by simp
  let ?lc = "toLowerCase rt"
  let ?slots = "scrapedProducts rt d a"
  let ?kept = "filter_products ?lc [] ?slots"
  have eq: "products r = sort_products ?kept"
    by (simp add: ps final_products_eq)
  have inv: "distinct (map (\<lambda>p. ?lc (name p)) ?kept)
    \<and> distinct (filter (\<lambda>u. u \<noteq> None \<and> u \<noteq> Some []) (map officialUrl ?kept))"
    by (rule filter_products_distinct) simp_all
  have 1: "distinct (map (\<lambda>p. ?lc (name p)) (products r))"
    using inv by (simp only: eq distinct_map_sort_products)
  have 2: "distinct (filter (\<lambda>u. u \<noteq> None \<and> u \<noteq> Some []) (map officialUrl (products r)))"
    using inv by (simp only: eq distinct_filter_map_sort_products)
  have set_eq: "set (products r) = set ?kept"
    by (simp only: eq set_sort_products)
  have 3: "c \<in> set (products r) \<or>
          (\<exists>i<j. \<exists>p \<in> set (products r). ?slots ! i = Some p \<and> same_product ?lc p c)"
    if "j < length ?slots" "?slots ! j = Some c" "relevanceScore c \<ge> 5" for j c
    using filter_products_first_kept [OF that, of ?lc] unfolding set_eq by blast
  from 1 2 3 show ?thesis unfolding d by blast
qed

theorem products_no_duplicates_witness:
  "POST run1 focus_request = (Json_ok result1, calls1)
   \<and> analyzeDesire run1 (desire result1) = Inr two_queries
   \<and> scrapedProducts run1 focus two_queries ! 2 = Some tea_upper
   \<and> relevanceScore tea_upper = 9
   \<and> products result1 = [pill, tea, nap]
   \<and> distinct (map (\<lambda>p. ascii_lower (name p)) [pill, tea, nap])
   \<and> distinct (filter (\<lambda>u. u \<noteq> None \<and> u \<noteq> Some []) (map officialUrl [pill, tea, nap]))
   \<and> (tea_upper \<in> set [pill, tea, nap] \<or>
       (\<exists>i<2. \<exists>p \<in> set [pill, tea, nap].
          [Some tea, Some pill, Some tea_upper, Some cup, Some nap] ! i = Some p
          \<and> same_product ascii_lower p tea_upper))"
proof -
  have an: "analyzeDesire run1 (desire result1) = Inr two_queries"
    by (simp only: result1_sel run1_analysis)
  have slot: "scrapedProducts run1 focus two_queries ! 2 = Some tea_upper"
    by (simp add: run1_scrapedProducts)
  note inst = products_no_duplicates [OF run1_POST an, unfolded result1_sel run1_lower
      run1_scrapedProducts]
  from inst have 1: "distinct (map (\<lambda>p. ascii_lower (name p)) [pill, tea, nap])" by blast
  from inst have 2: "distinct (filter (\<lambda>u. u \<noteq> None \<and> u \<noteq> Some [])
      (map officialUrl [pill, tea, nap]))" by blast
  from inst have "(2::nat) < length [Some tea, Some pill, Some tea_upper, Some cup, Some nap]
      \<and> [Some tea, Some pill, Some tea_upper, Some cup, Some nap] ! 2 = Some tea_upper
      \<and> relevanceScore tea_upper \<ge> 5 \<longrightarrow>
      tea_upper \<in> set [pill, tea, nap] \<or>
       (\<exists>i<2. \<exists>p \<in> set [pill, tea, nap].
          [Some tea, Some pill, Some tea_upper, Some cup, Some nap] ! i = Some p
          \<and> same_product ascii_lower p tea_upper)" by blast
  then have 3: "tea_upper \<in> set [pill, tea, nap] \<or>
       (\<exists>i<2. \<exists>p \<in> set [pill, tea, nap].
          [Some tea, Some pill, Some tea_upper, Some cup, Some nap] ! i = Some p
          \<and> same_product ascii_lower p tea_upper)"
    by (simp add: run1_names)
  from run1_POST an slot 1 2 3 show ?thesis
    by (simp only: run1_names(3) result1_sel simp_thms)
qed

text \<open>
  Claim C4. When the analysis gives two queries to search and exactly one of the two
  searches throws, the result's \<open>errors\<close> is a single entry, the text of line 52:
  the fixed prefix followed by the language of the failed query. The hits are exactly
  those the other search returned, and \<open>totalSearched\<close> is their number.
\<close>

theorem one_search_branch_fails:
  assumes "POST rt req = (Json_ok r, cs)" and "analyzeDesire rt (desire r) = Inr a"
    and "limitedQueries a = [q0, q1]" and "i < 2"
    and "search rt i (query ([q0, q1] ! i)) (language ([q0, q1] ! i)) 3 = Inl e"
    and "search rt (1 - i) (query ([q0, q1] ! (1 - i))) (language ([q0, q1] ! (1 - i))) 3
           = Inr hits"
  shows "errors r =
      [[0x691C, 0x7D22, 0x30A8, 0x30E9, 0x30FC, 0x3A, 0x20] @ language ([q0, q1] ! i)]
    \<and> allSearchResults rt a = hits
    \<and> totalSearched r = length hits"
proof -
  from assms(1) obtain d a' where d: "d = desire r" and a': "analyzeDesire rt d = Inr a'"
    and r: "r = \<lparr>desire = d, products = final_products rt d a',
          totalSearched = length (allSearchResults rt a'),
          totalScraped = length (limitedUrls rt a'), errors = search_errors rt a'\<rparr>"
    by (rule POST_ok)
  from a' assms(2) d have "a' = a" by simp
  with r have sel: "errors r = search_errors rt a"
    "totalSearched r = length (allSearchResults rt a)" by simp_all
  note sp = searchPromises_two [OF assms(3), of rt]
  from assms(4) consider "i = 0" | "i = 1" by arith
  then have "search_errors rt a = [search_error (language ([q0, q1] ! i))]
      \<and> allSearchResults rt a = hits"
  proof cases
    case 1
    with assms(5,6) show ?thesis
      by (simp add: search_errors_def allSearchResults_def sp search_branch_def)
  next
    case 2
    with assms(5,6) show ?thesis
      by (simp add: search_errors_def allSearchResults_def sp search_branch_def)
  qed
  with sel show ?thesis by (simp add: search_error_def)
qed

theorem one_search_branch_fails_witness:
  "POST run2 focus_request = (Json_ok result2, calls2)
   \<and> analyzeDesire run2 (desire result2) = Inr two_queries
   \<and> limitedQueries two_queries = [query_en, query_ja]
   \<and> search run2 0 (query query_en) (language query_en) 3 = Inl (ServiceError [])
   \<and> search run2 1 (query query_ja) (language query_ja) 3 =
        Inr [\<lparr>link = [0x41]\<rparr>, \<lparr>link = [0x42]\<rparr>, \<lparr>link = [0x41]\<rparr>, \<lparr>link = [0x43]\<rparr>]
   \<and> language query_en = [0x65, 0x6E]
   \<and> errors result2 = [[0x691C, 0x7D22, 0x30A8, 0x30E9, 0x30FC, 0x3A, 0x20, 0x65, 0x6E]]
   \<and> allSearchResults run2 two_queries =
        [\<lparr>link = [0x41]\<rparr>, \<lparr>link = [0x42]\<rparr>, \<lparr>link = [0x41]\<rparr>, \<lparr>link = [0x43]\<rparr>]
   \<and> totalSearched result2 = 4"
proof -
  have an: "analyzeDesire run2 (desire result2) = Inr two_queries"
    by (simp only: result2_sel run2_analysis)
  have i: "(0::nat) < 2" by simp
  have s0: "search run2 0 (query ([query_en, query_ja] ! 0)) (language ([query_en, query_ja] ! 0)) 3
      = Inl (ServiceError [])"
    by (simp add: run2_search_calls)
  have s1: "search run2 (1 - 0) (query ([query_en, query_ja] ! (1 - 0)))
      (language ([query_en, query_ja] ! (1 - 0))) 3
      = Inr [\<lparr>link = [0x41]\<rparr>, \<lparr>link = [0x42]\<rparr>, \<lparr>link = [0x41]\<rparr>, \<lparr>link = [0x43]\<rparr>]"
    using run2_search_calls(2) by simp
  from one_search_branch_fails [OF run2_POST an run2_queries i s0 s1]
  have "errors result2 = [[0x691C, 0x7D22, 0x30A8, 0x30E9, 0x30FC, 0x3A, 0x20, 0x65, 0x6E]]
    \<and> allSearchResults run2 two_queries =
        [\<lparr>link = [0x41]\<rparr>, \<lparr>link = [0x42]\<rparr>, \<lparr>link = [0x41]\<rparr>, \<lparr>link = [0x43]\<rparr>]
    \<and> totalSearched result2 = 4"
    by (simp add: query_en_def)
  moreover have "language query_en = [0x65, 0x6E]"
    by (simp add: query_en_def)
  ultimately show ?thesis
    using run2_POST an run2_queries run2_search_calls
    by (intro conjI) (elim conjE, assumption)+
qed




end
